theory Spec2Isabelle
  imports Complex_Main "HOL-Library.Log_Nat"
begin

section \<open>Data model (types.ts)\<close>

text \<open>
  A cell value is \<^verbatim>\<open>string | number | boolean | null\<close>. The number type is left as a
  type parameter \<open>'n\<close>. A row is an object keyed by column name; a key that is not
  present reads as \<^verbatim>\<open>undefined\<close>, which is \<open>None\<close> here.
\<close>

datatype 'n cell = Str string | Num 'n | Bool bool | Null

type_synonym 'n DataRow = "string \<rightharpoonup> 'n cell"

datatype sheet_kind = csv | json

text \<open>
  \<^verbatim>\<open>data: DataRow[]\<close> is a JavaScript array: an index that was never written (a hole
  left by a write past the end) reads as \<^verbatim>\<open>undefined\<close>, the entry \<open>None\<close>.
\<close>

record 'n Sheet =
  sheet_id :: string
  name :: string
  data :: "'n DataRow option list"
  columns :: "string list"
  sheet_type :: sheet_kind

definition js_index :: "'a list \<Rightarrow> int \<Rightarrow> 'a option" where
  "js_index xs i = (if 0 \<le> i \<and> i < int (length xs) then Some (xs ! nat i) else None)"

definition js_get :: "'a option list \<Rightarrow> int \<Rightarrow> 'a option" where
  "js_get xs i = (case js_index xs i of None \<Rightarrow> None | Some v \<Rightarrow> v)"

text \<open>
  \<^verbatim>\<open>xs[i] = v\<close> for an array index \<open>i\<close>: inside the array the entry is replaced, past the
  end the array grows and the indices in between stay holes.
\<close>

definition js_set :: "'a option list \<Rightarrow> nat \<Rightarrow> 'a \<Rightarrow> 'a option list" where
  "js_set xs i v =
     (if i < length xs then xs[i := Some v]
      else xs @ replicate (i - length xs) None @ [Some v])"

text \<open>\<^verbatim>\<open>xs.indexOf(x)\<close>: the first index holding \<open>x\<close>, or \<open>-1\<close>.\<close>

fun indexOf :: "'a list \<Rightarrow> 'a \<Rightarrow> int" where
  "indexOf [] x = - 1"
| "indexOf (y # ys) x =
     (if y = x then 0 else (let i = indexOf ys x in if i = - 1 then - 1 else i + 1))"

section \<open>JavaScript numbers\<close>

text \<open>
  A JavaScript number is an IEEE-754 double. A finite double is a real number here, and
  an arithmetic operation of the source is the exact operation followed by \<open>fl\<close>, the
  rounding to the nearest double, ties to the even significand: \<^verbatim>\<open>a * b\<close> is
  \<open>fl (a * b)\<close>. \<open>expo x\<close> is the binary exponent \<open>\<lfloor>log\<^sub>2 \<bar>x\<bar>\<rfloor>\<close>, not below \<open>-1022\<close>
  (subnormal numbers share that exponent), and a double with exponent \<open>e\<close> is a multiple
  of \<open>2\<^sup>e\<^sup>-\<^sup>5\<^sup>2\<close>. Overflow to Infinity (a result of magnitude \<open>2\<^sup>1\<^sup>0\<^sup>2\<^sup>4\<close> or more) and NaN
  are not modelled. \<^verbatim>\<open>Math.floor\<close>, \<^verbatim>\<open>Math.ceil\<close>, \<^verbatim>\<open>Math.max\<close>, \<^verbatim>\<open>Math.min\<close> and the
  comparisons are exact.
\<close>

definition pow2 :: "int \<Rightarrow> real" where
  "pow2 e = (if 0 \<le> e then 2 ^ nat e else 1 / 2 ^ nat (- e))"

definition expo0 :: "real \<Rightarrow> int" where
  "expo0 x =
     (if 1 \<le> \<bar>x\<bar> then bitlen \<lfloor>\<bar>x\<bar>\<rfloor> - 1 else - bitlen (\<lceil>1 / \<bar>x\<bar>\<rceil> - 1))"

definition expo :: "real \<Rightarrow> int" where
  "expo x = max (expo0 x) (- 1022)"

text \<open>Rounding to the nearest integer, ties to the even one.\<close>

definition rne :: "real \<Rightarrow> int" where
  "rne q =
     (let f = \<lfloor>q\<rfloor>; r = q - of_int f
      in if r < 1 / 2 then f else if 1 / 2 < r then f + 1
         else if even f then f else f + 1)"

definition fl :: "real \<Rightarrow> real" where
  "fl x = (let u = pow2 (expo x - 52) in of_int (rne (x / u)) * u)"

section \<open>Viewport windower (DataGrid.tsx, Virtualization)\<close>

text \<open>
  \<open>startIndex\<close> and \<open>endIndex\<close> are integer-valued doubles, given as integers: the
  rounded difference or sum of two integers is an integer again, and the outer floor
  only changes its type.
\<close>

definition ROW_HEIGHT_BASE :: real where
  "ROW_HEIGHT_BASE = 36"

definition buffer :: int where
  "buffer = 10"

definition rowHeight :: "real \<Rightarrow> real" where
  "rowHeight zoomLevel = fl (ROW_HEIGHT_BASE * fl (zoomLevel / 100))"

definition totalHeight :: "nat \<Rightarrow> real \<Rightarrow> real" where
  "totalHeight totalRows rh = fl (real totalRows * rh)"

definition startIndex :: "real \<Rightarrow> real \<Rightarrow> int" where
  "startIndex scrollTop rh =
     max 0 \<lfloor>fl (real_of_int \<lfloor>fl (scrollTop / rh)\<rfloor> - real_of_int buffer)\<rfloor>"

definition endIndex :: "nat \<Rightarrow> real \<Rightarrow> real \<Rightarrow> real \<Rightarrow> int" where
  "endIndex totalRows scrollTop containerHeight rh =
     min (int totalRows)
       \<lfloor>fl (real_of_int \<lceil>fl (fl (scrollTop + containerHeight) / rh)\<rceil> + real_of_int buffer)\<rfloor>"

definition topSpacerHeight :: "real \<Rightarrow> real \<Rightarrow> real" where
  "topSpacerHeight scrollTop rh = fl (real_of_int (startIndex scrollTop rh) * rh)"

definition bottomSpacerHeight :: "nat \<Rightarrow> real \<Rightarrow> real \<Rightarrow> real \<Rightarrow> real" where
  "bottomSpacerHeight totalRows scrollTop containerHeight rh =
     fl (fl (real_of_int (int totalRows - endIndex totalRows scrollTop containerHeight rh)) * rh)"

text \<open>
  \<^verbatim>\<open>xs.slice(start, fin)\<close> for integer arguments: a negative index counts from the end,
  both are clamped to the array, and the result is empty when the start is not below
  the end.
\<close>

definition js_slice :: "'a list \<Rightarrow> int \<Rightarrow> int \<Rightarrow> 'a list" where
  "js_slice xs start fin =
     (let len = int (length xs);
          k = (if start < 0 then max (len + start) 0 else min start len);
          final = (if fin < 0 then max (len + fin) 0 else min fin len)
      in take (nat (final - k)) (drop (nat k) xs))"

text \<open>
  \<^verbatim>\<open>sheet.data.slice(startIndex, endIndex).map((row, index) => ...)\<close>: \<^verbatim>\<open>map\<close> keeps
  a hole a hole. The table body renders one row of height \<open>rowHeight\<close> for every entry
  of \<open>visibleRows\<close> that is not a hole; \<open>materializedCount\<close> is their number.
\<close>

definition visibleRows ::
  "'n Sheet \<Rightarrow> real \<Rightarrow> real \<Rightarrow> real \<Rightarrow> ('n DataRow \<times> int) option list" where
  "visibleRows sheet scrollTop containerHeight rh =
     (let start = startIndex scrollTop rh;
          fin = endIndex (length (data sheet)) scrollTop containerHeight rh
      in map (\<lambda>(index, r). map_option (\<lambda>row. (row, start + int index)) r)
           (enumerate 0 (js_slice (data sheet) start fin)))"

definition materializedCount :: "'n Sheet \<Rightarrow> real \<Rightarrow> real \<Rightarrow> real \<Rightarrow> nat" where
  "materializedCount sheet scrollTop containerHeight rh =
     length (filter (\<lambda>v. v \<noteq> None) (visibleRows sheet scrollTop containerHeight rh))"

text \<open>
  None of the numbers behind the two spacers and the total height is rounded: the
  difference \<open>totalRows - endIndex\<close> and the three products with the row height.
\<close>

definition spacersExact :: "nat \<Rightarrow> real \<Rightarrow> real \<Rightarrow> real \<Rightarrow> bool" where
  "spacersExact totalRows scrollTop containerHeight rh =
     (let start = real_of_int (startIndex scrollTop rh);
          rest = real_of_int (int totalRows - endIndex totalRows scrollTop containerHeight rh)
      in fl (start * rh) = start * rh \<and> fl rest = rest \<and> fl (rest * rh) = rest * rh
         \<and> fl (real totalRows * rh) = real totalRows * rh)"

section \<open>String conversion\<close>

text \<open>
  \<^verbatim>\<open>String(v)\<close>. The conversion of a number is the parameter \<open>numStr\<close>; \<open>None\<close> is
  \<^verbatim>\<open>undefined\<close>.
\<close>

fun js_String :: "('n \<Rightarrow> string) \<Rightarrow> 'n cell option \<Rightarrow> string" where
  "js_String numStr None = ''undefined''"
| "js_String numStr (Some Null) = ''null''"
| "js_String numStr (Some (Str s)) = s"
| "js_String numStr (Some (Num x)) = numStr x"
| "js_String numStr (Some (Bool b)) = (if b then ''true'' else ''false'')"

text \<open>\<^verbatim>\<open>v ?? ''\<close>: the empty string stands in for \<^verbatim>\<open>null\<close> and \<^verbatim>\<open>undefined\<close>.\<close>

fun orEmpty :: "'n cell option \<Rightarrow> 'n cell option" where
  "orEmpty None = Some (Str [])"
| "orEmpty (Some Null) = Some (Str [])"
| "orEmpty (Some v) = Some v"

text \<open>\<^verbatim>\<open>val !== null && val !== undefined ? String(val) : ''\<close>\<close>

fun displayText :: "('n \<Rightarrow> string) \<Rightarrow> 'n cell option \<Rightarrow> string" where
  "displayText numStr None = []"
| "displayText numStr (Some Null) = []"
| "displayText numStr (Some v) = js_String numStr (Some v)"

section \<open>Diff engine (getCellClass and the inline compare logic)\<close>

definition NEW_ROW_CLASS :: string where
  "NEW_ROW_CLASS = ''bg-green-50 text-green-700''"

definition CHANGED_CLASS :: string where
  "CHANGED_CLASS = ''bg-amber-50 text-amber-800 font-medium''"

definition getCellClass ::
  "('n \<Rightarrow> string) \<Rightarrow> 'n Sheet option \<Rightarrow> int \<Rightarrow> string \<Rightarrow> 'n cell option \<Rightarrow> string" where
  "getCellClass numStr compareSheet rowIdx colName val =
     (case compareSheet of
        None \<Rightarrow> []
      | Some cs \<Rightarrow>
          (case js_get (data cs) rowIdx of
             None \<Rightarrow> NEW_ROW_CLASS
           | Some compareRow \<Rightarrow>
               (if js_String numStr val \<noteq> js_String numStr (orEmpty (compareRow colName))
                then CHANGED_CLASS else [])))"

text \<open>
  The first variant computes the same classification inline while rendering a cell and
  appends it (with a trailing blank) to the cell's base class; this is the class string
  before the selection ring is appended.
\<close>

definition BASE_CELL_CLASS :: string where
  "BASE_CELL_CLASS = ''border-l border-slate-300 px-2 py-0 truncate cursor-default ''"

definition compareCellClass ::
  "('n \<Rightarrow> string) \<Rightarrow> 'n Sheet option \<Rightarrow> int \<Rightarrow> string \<Rightarrow> 'n cell option \<Rightarrow> string" where
  "compareCellClass numStr compareSheet absoluteIndex col val =
     (case compareSheet of
        None \<Rightarrow> BASE_CELL_CLASS
      | Some cs \<Rightarrow>
          (case js_get (data cs) absoluteIndex of
             None \<Rightarrow> BASE_CELL_CLASS @ NEW_ROW_CLASS @ '' ''
           | Some compareRow \<Rightarrow>
               (if js_String numStr val \<noteq> js_String numStr (orEmpty (compareRow col))
                then BASE_CELL_CLASS @ CHANGED_CLASS @ '' '' else BASE_CELL_CLASS)))"

section \<open>Grid state\<close>

text \<open>
  The component state of the second variant, and the first variant's extension of it by
  the selection and the drag session. \<open>editingCell\<close> is \<open>(row, col)\<close> where \<open>col\<close> is
  \<open>None\<close> for \<^verbatim>\<open>undefined\<close>; \<open>selectedCell\<close> is \<open>(row, colIdx)\<close>; \<open>resizingRef\<close> is
  \<open>(col, startX, startWidth)\<close>.
\<close>

record grid_state_v2 =
  scrollTop :: real
  containerHeight :: real
  editingCell :: "(int \<times> string option) option"
  editValue :: string
  colWidths :: "string \<rightharpoonup> real"

record grid_state = grid_state_v2 +
  selectedCell :: "(int \<times> int) option"
  resizingRef :: "(string \<times> real \<times> real) option"
  isResizing :: bool

text \<open>One call of the host callback: \<^verbatim>\<open>onCellEdit(rowIndex, colKey, value)\<close>.\<close>

type_synonym cell_edit = "int \<times> string option \<times> string"

datatype js_error = TypeError

definition initial_state :: grid_state where
  "initial_state =
     \<lparr>scrollTop = 0, containerHeight = 0, editingCell = None, editValue = [],
      colWidths = Map.empty, selectedCell = None, resizingRef = None, isResizing = False\<rparr>"

definition initial_state_v2 :: grid_state_v2 where
  "initial_state_v2 =
     \<lparr>scrollTop = 0, containerHeight = 0, editingCell = None, editValue = [],
      colWidths = Map.empty\<rparr>"

section \<open>Reset on sheet change\<close>

definition initialWidths :: "string list \<Rightarrow> (string \<rightharpoonup> real)" where
  "initialWidths cols = fold (\<lambda>c m. m(c \<mapsto> 150)) cols Map.empty"

definition resetOnSheetChange :: "'n Sheet \<Rightarrow> grid_state \<Rightarrow> grid_state" where
  "resetOnSheetChange sheet st =
     st\<lparr>colWidths := initialWidths (columns sheet), editingCell := None,
        selectedCell := None, scrollTop := 0\<rparr>"

definition resetOnSheetChange_v2 :: "'n Sheet \<Rightarrow> grid_state_v2 \<Rightarrow> grid_state_v2" where
  "resetOnSheetChange_v2 sheet st =
     st\<lparr>colWidths := initialWidths (columns sheet), editingCell := None\<rparr>"

text \<open>
  The effect's dependencies are \<^verbatim>\<open>[sheet.id, sheet.columns]\<close>: it runs again when the id
  differs from the one of the previous render or the columns array is another object.
\<close>

definition depsChanged :: "string \<Rightarrow> string \<Rightarrow> bool \<Rightarrow> bool" where
  "depsChanged prevId newId sameColumnsArray = (prevId \<noteq> newId \<or> \<not> sameColumnsArray)"

definition sheetEffect :: "string \<Rightarrow> bool \<Rightarrow> 'n Sheet \<Rightarrow> grid_state \<Rightarrow> grid_state" where
  "sheetEffect prevId sameColumnsArray sheet st =
     (if depsChanged prevId (sheet_id sheet) sameColumnsArray
      then resetOnSheetChange sheet st else st)"

definition sheetEffect_v2 ::
  "string \<Rightarrow> bool \<Rightarrow> 'n Sheet \<Rightarrow> grid_state_v2 \<Rightarrow> grid_state_v2" where
  "sheetEffect_v2 prevId sameColumnsArray sheet st =
     (if depsChanged prevId (sheet_id sheet) sameColumnsArray
      then resetOnSheetChange_v2 sheet st else st)"

section \<open>Auto size\<close>

text \<open>
  \<open>ctx\<close> is the canvas 2d context: \<open>None\<close> when \<^verbatim>\<open>getContext('2d')\<close> returns null,
  otherwise the function \<^verbatim>\<open>s \<mapsto> ctx.measureText(s).width\<close>. The sampling loop reads
  \<^verbatim>\<open>sheet.data[i][col]\<close>, which throws a TypeError on a hole.
\<close>

fun sampleRows ::
  "('n \<Rightarrow> string) \<Rightarrow> (string \<Rightarrow> real) \<Rightarrow> string \<Rightarrow> 'n DataRow option list \<Rightarrow> real
     \<Rightarrow> js_error + real" where
  "sampleRows numStr measureText col [] maxWidth = Inr maxWidth"
| "sampleRows numStr measureText col (r # rs) maxWidth =
     (case r of
        None \<Rightarrow> Inl TypeError
      | Some row \<Rightarrow>
          (let txt = displayText numStr (row col);
               w = fl (measureText txt + 24)
           in sampleRows numStr measureText col rs (if w > maxWidth then w else maxWidth)))"

fun resizeColumns ::
  "('n \<Rightarrow> string) \<Rightarrow> (string \<Rightarrow> real) \<Rightarrow> nat \<Rightarrow> real \<Rightarrow> 'n DataRow option list
     \<Rightarrow> string list \<Rightarrow> (string \<rightharpoonup> real) \<Rightarrow> js_error + (string \<rightharpoonup> real)" where
  "resizeColumns numStr measureText limit upper rows [] newWidths = Inr newWidths"
| "resizeColumns numStr measureText limit upper rows (col # cols) newWidths =
     (case sampleRows numStr measureText col (take (min (length rows) limit) rows)
             (fl (measureText col + 40)) of
        Inl e \<Rightarrow> Inl e
      | Inr maxWidth \<Rightarrow>
          resizeColumns numStr measureText limit upper rows cols
            (newWidths(col \<mapsto> min (max maxWidth 60) upper)))"

definition performAutoSize ::
  "('n \<Rightarrow> string) \<Rightarrow> (string \<Rightarrow> real) option \<Rightarrow> string option \<Rightarrow> 'n Sheet
     \<Rightarrow> grid_state \<Rightarrow> js_error + grid_state" where
  "performAutoSize numStr ctx specificCol sheet st =
     (case ctx of
        None \<Rightarrow> Inr st
      | Some measureText \<Rightarrow>
          (let columnsToResize =
                 (case specificCol of
                    None \<Rightarrow> columns sheet
                  | Some c \<Rightarrow> if c = [] then columns sheet else [c])
           in case resizeColumns numStr measureText 500 800 (data sheet) columnsToResize
                     (colWidths st) of
                Inl e \<Rightarrow> Inl e
              | Inr newWidths \<Rightarrow> Inr (st\<lparr>colWidths := newWidths\<rparr>)))"

definition autoSizeColumns ::
  "('n \<Rightarrow> string) \<Rightarrow> (string \<Rightarrow> real) option \<Rightarrow> 'n Sheet \<Rightarrow> grid_state
     \<Rightarrow> js_error + grid_state" where
  "autoSizeColumns numStr ctx sheet st = performAutoSize numStr ctx None sheet st"

definition autoSizeColumns_v2 ::
  "('n \<Rightarrow> string) \<Rightarrow> (string \<Rightarrow> real) option \<Rightarrow> 'n Sheet \<Rightarrow> grid_state_v2
     \<Rightarrow> js_error + grid_state_v2" where
  "autoSizeColumns_v2 numStr ctx sheet st =
     (case ctx of
        None \<Rightarrow> Inr st
      | Some measureText \<Rightarrow>
          (case resizeColumns numStr measureText 200 600 (data sheet) (columns sheet)
                  Map.empty of
             Inl e \<Rightarrow> Inl e
           | Inr newWidths \<Rightarrow> Inr (st\<lparr>colWidths := newWidths\<rparr>)))"

section \<open>Interactive column resize\<close>

text \<open>\<^verbatim>\<open>colWidths[col] || 150\<close>: a missing width and the width 0 both read as 150.\<close>

definition widthOrDefault :: "real option \<Rightarrow> real" where
  "widthOrDefault w = (case w of None \<Rightarrow> 150 | Some x \<Rightarrow> if x = 0 then 150 else x)"

definition startResizing :: "string \<Rightarrow> real \<Rightarrow> grid_state \<Rightarrow> grid_state" where
  "startResizing col clientX st =
     st\<lparr>resizingRef := Some (col, clientX, widthOrDefault (colWidths st col)),
        isResizing := True\<rparr>"

definition handleMouseMove :: "real \<Rightarrow> real \<Rightarrow> grid_state \<Rightarrow> grid_state" where
  "handleMouseMove zoomLevel clientX st =
     (case resizingRef st of
        None \<Rightarrow> st
      | Some (col, startX, startWidth) \<Rightarrow>
          (let adjustedDiff = fl (fl (startX - clientX) * fl (100 / zoomLevel));
               finalWidth = max 50 (fl (startWidth + adjustedDiff))
           in st\<lparr>colWidths := (colWidths st)(col \<mapsto> finalWidth)\<rparr>))"

definition handleMouseUp :: "grid_state \<Rightarrow> grid_state" where
  "handleMouseUp st =
     (case resizingRef st of
        None \<Rightarrow> st
      | Some r \<Rightarrow> st\<lparr>resizingRef := None, isResizing := False\<rparr>)"


section \<open>Editing and selection\<close>

definition handleCellClick :: "int \<Rightarrow> int \<Rightarrow> grid_state \<Rightarrow> grid_state" where
  "handleCellClick rowIdx colIdx st = st\<lparr>selectedCell := Some (rowIdx, colIdx)\<rparr>"

definition startEditing ::
  "('n \<Rightarrow> string) \<Rightarrow> int \<Rightarrow> string option \<Rightarrow> 'n cell option \<Rightarrow> grid_state \<Rightarrow> grid_state" where
  "startEditing numStr rowIdx col val st =
     st\<lparr>editingCell := Some (rowIdx, col), editValue := displayText numStr val\<rparr>"

text \<open>
  A handler reads the state of the render it was created in and queues its state
  updates. \<open>saveEditBody\<close> is the body of \<^verbatim>\<open>saveEdit\<close> up to its last statement, run in
  the closure of the render with state \<open>render\<close>, its updates applied to \<open>pending\<close>; it
  returns the updated state and the calls of \<^verbatim>\<open>onCellEdit\<close> it made, in order.
  \<^verbatim>\<open>sheet.columns.indexOf(undefined)\<close> is \<open>-1\<close>.
\<close>

definition saveEditBody ::
  "'n Sheet \<Rightarrow> grid_state \<Rightarrow> grid_state \<Rightarrow> grid_state \<times> cell_edit list" where
  "saveEditBody sheet render pending =
     (case editingCell render of
        None \<Rightarrow> (pending, [])
      | Some (r, c) \<Rightarrow>
          (let p1 = pending\<lparr>editingCell := None\<rparr>;
               colIdx = (case c of None \<Rightarrow> - 1 | Some cn \<Rightarrow> indexOf (columns sheet) cn)
           in (if colIdx \<noteq> - 1 then p1\<lparr>selectedCell := Some (r, colIdx)\<rparr> else p1,
               [(r, c, editValue render)])))"

text \<open>
  The last statement of \<^verbatim>\<open>saveEdit\<close>, inside \<^verbatim>\<open>if (editingCell)\<close>, is
  \<^verbatim>\<open>containerRef.current?.focus()\<close>. When the edit input holds the focus
  (\<open>inputFocused\<close>), the browser blurs it before \<^verbatim>\<open>focus()\<close> returns and the input's
  \<^verbatim>\<open>onBlur={saveEdit}\<close> runs: it is the handler of the same render, no update has been
  applied yet, so it reads the same \<open>editingCell\<close> and \<open>editValue\<close>. The \<^verbatim>\<open>focus()\<close> call
  of that second run finds the input without the focus.
\<close>

definition saveEdit ::
  "'n Sheet \<Rightarrow> bool \<Rightarrow> grid_state \<Rightarrow> grid_state \<times> cell_edit list" where
  "saveEdit sheet inputFocused st =
     (let (p1, calls1) = saveEditBody sheet st st
      in if editingCell st \<noteq> None \<and> inputFocused
         then (let (p2, calls2) = saveEditBody sheet st p1 in (p2, calls1 @ calls2))
         else (p1, calls1))"

datatype key = ArrowUp | ArrowDown | ArrowRight | ArrowLeft | Tab | Enter | Escape | OtherKey

text \<open>
  The edit input's \<^verbatim>\<open>onKeyDown\<close>. The key event's target is the input, which holds the
  focus; the handler stops the event's propagation to the container.
\<close>

definition inputKeyDown :: "'n Sheet \<Rightarrow> key \<Rightarrow> grid_state \<Rightarrow> grid_state \<times> cell_edit list" where
  "inputKeyDown sheet k st =
     (if k = Enter then saveEdit sheet True st
      else if k = Escape then (st\<lparr>editingCell := None\<rparr>, [])
      else (st, []))"

text \<open>The edit input's \<^verbatim>\<open>onBlur\<close>: the input has lost the focus.\<close>

definition inputBlur :: "'n Sheet \<Rightarrow> grid_state \<Rightarrow> grid_state \<times> cell_edit list" where
  "inputBlur sheet st = saveEdit sheet False st"

definition inputChange :: "string \<Rightarrow> grid_state \<Rightarrow> grid_state" where
  "inputChange v st = st\<lparr>editValue := v\<rparr>"

text \<open>
  The container's \<^verbatim>\<open>onKeyDown\<close>. A key event reaches it only when its target is not the
  edit input, so the input does not hold the focus. \<^verbatim>\<open>scrollToCell\<close> only assigns the
  scroll offset of the DOM container and is not part of the component state. In the
  Enter case
  \<^verbatim>\<open>sheet.data[row][sheet.columns[colIdx]]\<close> throws when the row is missing, and an
  undefined column name reads the property named \<^verbatim>\<open>undefined\<close>.
\<close>

definition handleKeyDown ::
  "('n \<Rightarrow> string) \<Rightarrow> 'n Sheet \<Rightarrow> key \<Rightarrow> bool \<Rightarrow> grid_state
     \<Rightarrow> js_error + (grid_state \<times> cell_edit list)" where
  "handleKeyDown numStr sheet k shiftKey st =
     (if editingCell st \<noteq> None then
        (if k = Enter then Inr (saveEdit sheet False st)
         else if k = Escape then Inr (st\<lparr>editingCell := None\<rparr>, [])
         else Inr (st, []))
      else
        (case selectedCell st of
           None \<Rightarrow> Inr (st, [])
         | Some (row, colIdx) \<Rightarrow>
             (case k of
                ArrowUp \<Rightarrow> Inr (st\<lparr>selectedCell := Some (max 0 (row - 1), colIdx)\<rparr>, [])
              | ArrowDown \<Rightarrow>
                  Inr (st\<lparr>selectedCell :=
                           Some (min (int (length (data sheet)) - 1) (row + 1), colIdx)\<rparr>, [])
              | ArrowRight \<Rightarrow> Inr (st\<lparr>selectedCell := Some (row, max 0 (colIdx - 1))\<rparr>, [])
              | ArrowLeft \<Rightarrow>
                  Inr (st\<lparr>selectedCell :=
                           Some (row, min (int (length (columns sheet)) - 1) (colIdx + 1))\<rparr>, [])
              | Tab \<Rightarrow>
                  (if shiftKey then
                     (let newColIdx = max 0 (colIdx - 1)
                      in if newColIdx = 0 \<and> row > 0
                         then Inr (st\<lparr>selectedCell :=
                                       Some (row - 1, int (length (columns sheet)) - 1)\<rparr>, [])
                         else Inr (st\<lparr>selectedCell := Some (row, newColIdx)\<rparr>, []))
                   else
                     Inr (st\<lparr>selectedCell :=
                              Some (row, min (int (length (columns sheet)) - 1) (colIdx + 1))\<rparr>,
                          []))
              | Enter \<Rightarrow>
                  (let col = js_index (columns sheet) colIdx
                   in case js_get (data sheet) row of
                        None \<Rightarrow> Inl TypeError
                      | Some r \<Rightarrow>
                          Inr (startEditing numStr row col
                                 (r (case col of None \<Rightarrow> ''undefined'' | Some cn \<Rightarrow> cn)) st,
                               []))
              | Escape \<Rightarrow> Inr (st, [])
              | OtherKey \<Rightarrow> Inr (st, []))))"

text \<open>The second variant's edit handlers; it has no selection.\<close>

definition startEditing_v2 ::
  "('n \<Rightarrow> string) \<Rightarrow> int \<Rightarrow> string option \<Rightarrow> 'n cell option \<Rightarrow> grid_state_v2
     \<Rightarrow> grid_state_v2" where
  "startEditing_v2 numStr rowIdx col val st =
     st\<lparr>editingCell := Some (rowIdx, col), editValue := displayText numStr val\<rparr>"

definition saveEdit_v2 :: "grid_state_v2 \<Rightarrow> grid_state_v2 \<times> cell_edit list" where
  "saveEdit_v2 st =
     (case editingCell st of
        None \<Rightarrow> (st, [])
      | Some (r, c) \<Rightarrow> (st\<lparr>editingCell := None\<rparr>, [(r, c, editValue st)]))"

definition handleKeyDown_v2 :: "key \<Rightarrow> grid_state_v2 \<Rightarrow> grid_state_v2 \<times> cell_edit list" where
  "handleKeyDown_v2 k st =
     (if k = Enter then saveEdit_v2 st
      else if k = Escape then (st\<lparr>editingCell := None\<rparr>, [])
      else (st, []))"

section \<open>Events of the first variant\<close>

text \<open>
  A click and a double click come from a rendered cell and carry what the cell's handler
  closed over: its row and column index, and for the double click the column name and
  the cell's value.
\<close>

datatype 'n event =
    KeyDown key bool
  | InputKeyDown key
  | InputBlur
  | InputChange string
  | CellClick int int
  | CellDoubleClick int string "'n cell option"
  | Scroll real
  | WindowResize real
  | ResizerMouseDown string real
  | MouseMove real
  | MouseUp
  | ResizerDoubleClick string "(string \<Rightarrow> real) option"
  | AutoSize "(string \<Rightarrow> real) option"

definition gridStep ::
  "('n \<Rightarrow> string) \<Rightarrow> 'n Sheet \<Rightarrow> real \<Rightarrow> grid_state \<Rightarrow> 'n event
     \<Rightarrow> js_error + (grid_state \<times> cell_edit list)" where
  "gridStep numStr sheet zoomLevel st ev =
     (case ev of
        KeyDown k shiftKey \<Rightarrow> handleKeyDown numStr sheet k shiftKey st
      | InputKeyDown k \<Rightarrow> Inr (inputKeyDown sheet k st)
      | InputBlur \<Rightarrow> Inr (inputBlur sheet st)
      | InputChange v \<Rightarrow> Inr (inputChange v st, [])
      | CellClick rowIdx colIdx \<Rightarrow> Inr (handleCellClick rowIdx colIdx st, [])
      | CellDoubleClick rowIdx col val \<Rightarrow> Inr (startEditing numStr rowIdx (Some col) val st, [])
      | Scroll y \<Rightarrow> Inr (st\<lparr>scrollTop := y\<rparr>, [])
      | WindowResize h \<Rightarrow> Inr (st\<lparr>containerHeight := h\<rparr>, [])
      | ResizerMouseDown col x \<Rightarrow> Inr (startResizing col x st, [])
      | MouseMove x \<Rightarrow> Inr (if isResizing st then handleMouseMove zoomLevel x st else st, [])
      | MouseUp \<Rightarrow> Inr (if isResizing st then handleMouseUp st else st, [])
      | ResizerDoubleClick col ctx \<Rightarrow>
          (case performAutoSize numStr ctx (Some col) sheet st of
             Inl e \<Rightarrow> Inl e | Inr st' \<Rightarrow> Inr (st', []))
      | AutoSize ctx \<Rightarrow>
          (case autoSizeColumns numStr ctx sheet st of
             Inl e \<Rightarrow> Inl e | Inr st' \<Rightarrow> Inr (st', [])))"

text \<open>
  A click addresses a cell that exists in the table, a double click a row that exists:
  only rendered cells carry the handlers.
\<close>

definition eventOk :: "'n Sheet \<Rightarrow> 'n event \<Rightarrow> bool" where
  "eventOk sheet ev =
     (case ev of
        CellClick rowIdx colIdx \<Rightarrow>
          0 \<le> rowIdx \<and> rowIdx < int (length (data sheet))
          \<and> 0 \<le> colIdx \<and> colIdx < int (length (columns sheet))
      | CellDoubleClick rowIdx col val \<Rightarrow>
          0 \<le> rowIdx \<and> rowIdx < int (length (data sheet))
      | _ \<Rightarrow> True)"

text \<open>
  The states the grid can reach on a fixed sheet: the state of the first render, the
  state after the reset effect has run (it runs after the first render, and again when
  the columns array is replaced), and the state after any event, at any zoom level.
\<close>

inductive reachable :: "('n \<Rightarrow> string) \<Rightarrow> 'n Sheet \<Rightarrow> grid_state \<Rightarrow> bool"
  for numStr :: "'n \<Rightarrow> string" and sheet :: "'n Sheet" where
  reachable_init: "reachable numStr sheet initial_state"
| reachable_reset:
    "reachable numStr sheet st \<Longrightarrow> reachable numStr sheet (resetOnSheetChange sheet st)"
| reachable_step:
    "reachable numStr sheet st \<Longrightarrow> eventOk sheet ev
     \<Longrightarrow> gridStep numStr sheet zoomLevel st ev = Inr (st', calls)
     \<Longrightarrow> reachable numStr sheet st'"

text \<open>No row of the table is a hole.\<close>

definition rowsPresent :: "'n Sheet \<Rightarrow> bool" where
  "rowsPresent sheet = list_all (\<lambda>r. r \<noteq> None) (data sheet)"

definition selectionInBounds :: "'n Sheet \<Rightarrow> grid_state \<Rightarrow> bool" where
  "selectionInBounds sheet st =
     (case selectedCell st of
        None \<Rightarrow> True
      | Some (row, colIdx) \<Rightarrow>
          0 \<le> row \<and> row < int (length (data sheet))
          \<and> 0 \<le> colIdx \<and> colIdx < int (length (columns sheet)))"

definition editRowInBounds :: "'n Sheet \<Rightarrow> grid_state \<Rightarrow> bool" where
  "editRowInBounds sheet st =
     (case editingCell st of
        None \<Rightarrow> True
      | Some (row, col) \<Rightarrow> 0 \<le> row \<and> row < int (length (data sheet)))"

section \<open>The host's edit handler (App)\<close>

text \<open>
  \<open>activeSheetId\<close> is \<^verbatim>\<open>string | null\<close>; \<^verbatim>\<open>!activeSheetId\<close> holds for null and for the
  empty string. \<open>rowIndex\<close> is an array index. Spreading a missing row gives the empty
  object.
\<close>

definition editSheet :: "nat \<Rightarrow> string \<Rightarrow> string \<Rightarrow> 'n Sheet \<Rightarrow> 'n Sheet" where
  "editSheet rowIndex colKey v sheet =
     (let newData = data sheet;
          oldRow = (case js_get newData (int rowIndex) of None \<Rightarrow> Map.empty | Some r \<Rightarrow> r)
      in sheet\<lparr>data := js_set newData rowIndex (oldRow(colKey \<mapsto> Str v))\<rparr>)"

definition handleCellEdit ::
  "string option \<Rightarrow> nat \<Rightarrow> string \<Rightarrow> string \<Rightarrow> 'n Sheet list \<Rightarrow> 'n Sheet list" where
  "handleCellEdit activeSheetId rowIndex colKey v sheets =
     (case activeSheetId of
        None \<Rightarrow> sheets
      | Some a \<Rightarrow>
          if a = [] then sheets
          else map (\<lambda>sheet. if sheet_id sheet = a then editSheet rowIndex colKey v sheet
                            else sheet) sheets)"

section \<open>Observations and example data\<close>

text \<open>The value a table shows at a row index and column name: \<^verbatim>\<open>data[i]?.[c]\<close>.\<close>

definition cellAt :: "'n DataRow option list \<Rightarrow> int \<Rightarrow> string \<Rightarrow> 'n cell option" where
  "cellAt rows i c = (case js_get rows i of None \<Rightarrow> None | Some r \<Rightarrow> r c)"

definition gridInv :: "'n Sheet \<Rightarrow> grid_state \<Rightarrow> bool" where
  "gridInv sheet st = (selectionInBounds sheet st \<and> editRowInBounds sheet st)"

text \<open>
  The numbers of the examples are integers; JavaScript prints an integer of magnitude
  below \<open>10\<^sup>2\<^sup>1\<close> in decimal.
\<close>

fun natStr :: "nat \<Rightarrow> string" where
  "natStr n =
     (if n < 10 then [char_of (48 + n)]
      else natStr (n div 10) @ [char_of (48 + n mod 10)])"

declare natStr.simps [simp del]

definition intStr :: "int \<Rightarrow> string" where
  "intStr i = (if i < 0 then CHR ''-'' # natStr (nat (- i)) else natStr (nat i))"

definition sheet_abc :: "int Sheet" where
  "sheet_abc =
     \<lparr>sheet_id = ''s1'', name = ''abc.csv'',
      data = [Some [''A'' \<mapsto> Str ''1'', ''B'' \<mapsto> Str ''2'', ''C'' \<mapsto> Str ''3''],
              Some [''A'' \<mapsto> Str ''4'', ''B'' \<mapsto> Str ''5'', ''C'' \<mapsto> Str ''6'']],
      columns = [''A'', ''B'', ''C''], sheet_type = csv\<rparr>"

definition sheet_nulls :: "int Sheet" where
  "sheet_nulls =
     \<lparr>sheet_id = ''s2'', name = ''n.json'', data = [Some [''A'' \<mapsto> Null]],
      columns = [''A''], sheet_type = json\<rparr>"

text \<open>A sheet of \<open>n\<close> equal rows with one column.\<close>

definition sheet_rows :: "nat \<Rightarrow> int Sheet" where
  "sheet_rows n =
     \<lparr>sheet_id = ''s3'', name = ''rows.csv'', data = replicate n (Some [''A'' \<mapsto> Str ''x'']),
      columns = [''A''], sheet_type = csv\<rparr>"

definition st_wide :: grid_state where
  "st_wide = initial_state\<lparr>colWidths := [''A'' \<mapsto> 150]\<rparr>"

definition st_selected :: grid_state where
  "st_selected = initial_state\<lparr>selectedCell := Some (0, 1)\<rparr>"

definition st_editing :: grid_state where
  "st_editing =
     initial_state\<lparr>editingCell := Some (0, Some ''A''), editValue := ''42'',
                   selectedCell := Some (0, 0)\<rparr>"

definition st_editing_v2 :: grid_state_v2 where
  "st_editing_v2 = initial_state_v2\<lparr>editingCell := Some (1, Some ''B''), editValue := ''x''\<rparr>"

definition st_stale :: grid_state where
  "st_stale =
     initial_state\<lparr>colWidths := [''Z'' \<mapsto> 300], selectedCell := Some (9, 2),
                   editingCell := Some (9, Some ''Z'')\<rparr>"

definition st_stale_v2 :: grid_state_v2 where
  "st_stale_v2 =
     initial_state_v2\<lparr>colWidths := [''Z'' \<mapsto> 300], editingCell := Some (9, Some ''Z'')\<rparr>"

section \<open>Rounding to the nearest double\<close>

lemma pow2_powi: "pow2 e = 2 powi e"
  by (simp add: pow2_def power_int_def inverse_eq_divide power_one_over)

lemma pow2_pos: "0 < pow2 e"
  by (simp add: pow2_def)

lemma pow2_add: "pow2 (a + b) = pow2 a * pow2 b"
  by (simp add: pow2_powi power_int_add)

lemma pow2_mono: "a \<le> b \<Longrightarrow> pow2 a \<le> pow2 b"
  by (simp add: pow2_powi power_int_increasing)

lemma pow2_nat: "0 \<le> e \<Longrightarrow> pow2 e = 2 ^ nat e"
  by (simp add: pow2_def)

lemma rne_of_int: "rne (of_int k) = k"
  by (simp add: rne_def)

lemma rne_cases:
  "rne q = \<lfloor>q\<rfloor> \<or> rne q = \<lfloor>q\<rfloor> + 1"
  by (simp add: rne_def Let_def)

lemma rne_mono:
  assumes "x \<le> y"
  shows "rne x \<le> rne y"
proof (cases "\<lfloor>x\<rfloor> < \<lfloor>y\<rfloor>")
  case True
  have "rne x \<le> \<lfloor>x\<rfloor> + 1" using rne_cases [of x] by auto
  moreover have "\<lfloor>y\<rfloor> \<le> rne y" using rne_cases [of y] by auto
  ultimately show ?thesis using True by linarith
next
  case False
  then have eq: "\<lfloor>x\<rfloor> = \<lfloor>y\<rfloor>"
    using floor_mono [OF assms] by linarith
  then show ?thesis
    using assms by (auto simp: rne_def Let_def)
qed

lemma rne_minus: "rne (- q) = - rne q"
proof (cases "q = of_int \<lfloor>q\<rfloor>")
  case True
  then obtain k where "q = of_int k" by blast
  then have "- q = of_int (- k)" by simp
  then show ?thesis
    using \<open>q = of_int k\<close> by (simp only: rne_of_int)
next
  case False
  then have lt: "of_int \<lfloor>q\<rfloor> < q"
    using of_int_floor_le [of q] by linarith
  have "\<lfloor>- q\<rfloor> = - \<lfloor>q\<rfloor> - 1"
  proof (rule floor_unique)
    have h: "q < of_int \<lfloor>q\<rfloor> + 1" by linarith
    have "real_of_int (- \<lfloor>q\<rfloor> - 1) = - of_int \<lfloor>q\<rfloor> - 1" by simp
    then show "of_int (- \<lfloor>q\<rfloor> - 1) \<le> - q"
      using h by linarith
    show "- q < of_int (- \<lfloor>q\<rfloor> - 1) + 1"
      using lt by simp
  qed
  then show ?thesis
    using lt by (auto simp: rne_def Let_def)
qed

lemma expo0_bounds:
  assumes "x \<noteq> 0"
  shows "pow2 (expo0 x) \<le> \<bar>x\<bar> \<and> \<bar>x\<bar> < pow2 (expo0 x + 1)"
proof (cases "1 \<le> \<bar>x\<bar>")
  case True
  define m where "m = \<lfloor>\<bar>x\<bar>\<rfloor>"
  have m1: "1 \<le> m" using True by (simp add: m_def le_floor_iff)
  then have mpos: "0 < m" by simp
  have b1: "1 \<le> bitlen m"
    using mpos bitlen_eq_zero_iff [of m] bitlen_nonneg [of m] by linarith
  from bitlen_bounds [OF mpos]
  have lo: "2 ^ nat (bitlen m - 1) \<le> m" and hi: "m < 2 ^ nat (bitlen m)" by simp_all
  have e: "expo0 x = bitlen m - 1" using True by (simp add: expo0_def m_def)
  have "real_of_int (2 ^ nat (bitlen m - 1)) \<le> real_of_int m"
    using lo by (simp only: of_int_le_iff)
  also have "\<dots> \<le> \<bar>x\<bar>" by (simp add: m_def)
  finally have A: "pow2 (expo0 x) \<le> \<bar>x\<bar>"
    using b1 by (simp add: e pow2_def)
  have "m + 1 \<le> 2 ^ nat (bitlen m)" using hi by simp
  then have "real_of_int (m + 1) \<le> real_of_int (2 ^ nat (bitlen m))"
    by (simp only: of_int_le_iff)
  moreover have "\<bar>x\<bar> < real_of_int (m + 1)"
    unfolding m_def by linarith
  ultimately have B: "\<bar>x\<bar> < pow2 (expo0 x + 1)"
    using b1 by (simp add: e pow2_def)
  show ?thesis using A B by simp
next
  case False
  then have x1: "\<bar>x\<bar> < 1" by simp
  have xpos: "0 < \<bar>x\<bar>" using assms by simp
  define y where "y = 1 / \<bar>x\<bar>"
  have y1: "1 < y" using x1 xpos by (simp add: y_def)
  define m where "m = \<lceil>y\<rceil> - 1"
  have m1: "1 \<le> m" using y1 by (simp add: m_def less_ceiling_iff)
  then have mpos: "0 < m" by simp
  have b1: "1 \<le> bitlen m"
    using mpos bitlen_eq_zero_iff [of m] bitlen_nonneg [of m] by linarith
  from bitlen_bounds [OF mpos]
  have lo: "2 ^ nat (bitlen m - 1) \<le> m" and hi: "m < 2 ^ nat (bitlen m)" by simp_all
  have e: "expo0 x = - bitlen m" using False by (simp add: expo0_def m_def y_def)
  have my: "real_of_int m < y" and ym: "y \<le> real_of_int (m + 1)"
    using ceiling_correct [of y] by (simp_all add: m_def)
  have "m + 1 \<le> 2 ^ nat (bitlen m)" using hi by simp
  then have "real_of_int (m + 1) \<le> real_of_int (2 ^ nat (bitlen m))"
    by (simp only: of_int_le_iff)
  then have "y \<le> 2 ^ nat (bitlen m)" using ym by simp
  then have "1 / 2 ^ nat (bitlen m) \<le> \<bar>x\<bar>"
    using xpos by (simp add: y_def field_simps)
  then have A: "pow2 (expo0 x) \<le> \<bar>x\<bar>"
    using b1 by (simp add: e pow2_def)
  have "real_of_int (2 ^ nat (bitlen m - 1)) \<le> real_of_int m"
    using lo by (simp only: of_int_le_iff)
  then have "(2::real) ^ nat (bitlen m - 1) \<le> real_of_int m" by simp
  then have "2 ^ nat (bitlen m - 1) < y" using my by linarith
  then have "\<bar>x\<bar> < 1 / 2 ^ nat (bitlen m - 1)"
    using xpos by (simp add: y_def field_simps)
  moreover have "pow2 (- bitlen m + 1) = 1 / 2 ^ nat (bitlen m - 1)"
    using b1 by (cases "bitlen m = 1") (simp_all add: pow2_def)
  ultimately have B: "\<bar>x\<bar> < pow2 (expo0 x + 1)"
    by (simp add: e)
  show ?thesis using A B by simp
qed

lemma expo0_mono:
  assumes "0 < x" and "x \<le> y"
  shows "expo0 x \<le> expo0 y"
proof (rule ccontr)
  assume "\<not> expo0 x \<le> expo0 y"
  then have "expo0 y + 1 \<le> expo0 x" by simp
  then have "pow2 (expo0 y + 1) \<le> pow2 (expo0 x)" by (rule pow2_mono)
  moreover have "\<bar>y\<bar> < pow2 (expo0 y + 1)"
    using expo0_bounds [of y] assms by simp
  moreover have "pow2 (expo0 x) \<le> \<bar>x\<bar>"
    using expo0_bounds [of x] assms by simp
  ultimately show False using assms by simp
qed

lemma expo_mono:
  assumes "0 < x" and "x \<le> y"
  shows "expo x \<le> expo y"
  using expo0_mono [OF assms] by (simp add: expo_def)

lemma expo_upper:
  assumes "x \<noteq> 0"
  shows "\<bar>x\<bar> < pow2 (expo x + 1)"
proof -
  have "\<bar>x\<bar> < pow2 (expo0 x + 1)"
    using expo0_bounds [OF assms] by simp
  also have "\<dots> \<le> pow2 (expo x + 1)"
    by (rule pow2_mono) (simp add: expo_def)
  finally show ?thesis .
qed

lemma expo_lower:
  assumes "x \<noteq> 0" and "- 1022 < expo x"
  shows "pow2 (expo x) \<le> \<bar>x\<bar>"
proof -
  have "expo x = expo0 x"
    using assms(2) by (simp add: expo_def max_def split: if_splits)
  then show ?thesis
    using expo0_bounds [OF assms(1)] by simp
qed

lemma expo_minus: "expo (- x) = expo x"
  by (simp add: expo_def expo0_def)

lemma rne_zero: "rne 0 = 0"
  by (simp add: rne_def)

lemma fl_zero: "fl 0 = 0"
  by (simp add: fl_def rne_zero)

lemma fl_minus: "fl (- x) = - fl x"
  by (simp add: fl_def expo_minus rne_minus Let_def)

lemma fl_nonneg:
  assumes "0 \<le> x"
  shows "0 \<le> fl x"
proof -
  have "0 \<le> x / pow2 (expo x - 52)"
    using assms pow2_pos [of "expo x - 52"] by simp
  from rne_mono [OF this] have "0 \<le> rne (x / pow2 (expo x - 52))"
    by (simp add: rne_zero)
  then show ?thesis
    using pow2_pos [of "expo x - 52"] by (simp add: fl_def Let_def)
qed

lemma pow2_53: "pow2 53 = real_of_int (2 ^ 53)"
  by (simp add: pow2_def)

lemma pow2_52: "pow2 52 = real_of_int (2 ^ 52)"
  by (simp add: pow2_def)

lemma fl_upper:
  assumes "0 < x"
  shows "fl x \<le> pow2 (expo x + 1)"
proof -
  define u where "u = pow2 (expo x - 52)"
  have upos: "0 < u" by (simp add: u_def pow2_pos)
  have "pow2 (expo x + 1) = pow2 (53 + (expo x - 52))"
    by (rule arg_cong [where f = pow2]) simp
  then have split: "pow2 (expo x + 1) = pow2 53 * u"
    by (simp only: pow2_add u_def)
  have "\<bar>x\<bar> < pow2 (expo x + 1)"
    using expo_upper [of x] assms by blast
  then have "x \<le> pow2 53 * u"
    unfolding split using assms by linarith
  then have "x / u \<le> pow2 53"
    using upos by (simp add: pos_divide_le_eq)
  from rne_mono [OF this] have "rne (x / u) \<le> 2 ^ 53"
    by (simp only: pow2_53 rne_of_int)
  then have "real_of_int (rne (x / u)) \<le> pow2 53"
    by (simp only: pow2_53 of_int_le_iff)
  then have "real_of_int (rne (x / u)) * u \<le> pow2 53 * u"
    using upos by simp
  then show ?thesis
    by (simp add: fl_def Let_def split flip: u_def)
qed

lemma fl_lower:
  assumes "0 < x" and "- 1022 < expo x"
  shows "pow2 (expo x) \<le> fl x"
proof -
  define u where "u = pow2 (expo x - 52)"
  have upos: "0 < u" by (simp add: u_def pow2_pos)
  have "pow2 (expo x) = pow2 (52 + (expo x - 52))"
    by (rule arg_cong [where f = pow2]) simp
  then have split: "pow2 (expo x) = pow2 52 * u"
    by (simp only: pow2_add u_def)
  have "pow2 (expo x) \<le> \<bar>x\<bar>"
    using expo_lower [of x] assms by blast
  then have "pow2 52 * u \<le> x"
    unfolding split using assms by linarith
  then have "pow2 52 \<le> x / u"
    using upos by (simp add: pos_le_divide_eq)
  from rne_mono [OF this] have "2 ^ 52 \<le> rne (x / u)"
    by (simp only: pow2_52 rne_of_int)
  then have "pow2 52 \<le> real_of_int (rne (x / u))"
    by (simp only: pow2_52 of_int_le_iff)
  then have "pow2 52 * u \<le> real_of_int (rne (x / u)) * u"
    using upos by simp
  then show ?thesis
    by (simp add: fl_def Let_def split flip: u_def)
qed

lemma fl_mono_pos:
  assumes "0 < x" and "x \<le> y"
  shows "fl x \<le> fl y"
proof (cases "expo x = expo y")
  case True
  define u where "u = pow2 (expo y - 52)"
  have upos: "0 < u" by (simp add: u_def pow2_pos)
  have "x / u \<le> y / u"
    using assms(2) upos by (simp add: divide_right_mono)
  from rne_mono [OF this] have "real_of_int (rne (x / u)) * u \<le> real_of_int (rne (y / u)) * u"
    using upos by simp
  then show ?thesis
    by (simp add: fl_def Let_def True flip: u_def)
next
  case False
  then have lt: "expo x + 1 \<le> expo y"
    using expo_mono [OF assms] by simp
  have ypos: "0 < y" using assms by simp
  have "- 1022 \<le> expo x" by (simp add: expo_def)
  then have ylow: "- 1022 < expo y" using lt by simp
  have "fl x \<le> pow2 (expo x + 1)" using assms(1) by (rule fl_upper)
  also have "\<dots> \<le> pow2 (expo y)" using lt by (rule pow2_mono)
  also have "\<dots> \<le> fl y" using ypos ylow by (rule fl_lower)
  finally show ?thesis .
qed

lemma fl_mono:
  assumes "x \<le> y"
  shows "fl x \<le> fl y"
proof -
  consider "0 < x" | "x \<le> 0" "0 \<le> y" | "y < 0" by linarith
  then show ?thesis
  proof cases
    case 1
    then show ?thesis using assms by (rule fl_mono_pos)
  next
    case 2
    have "0 \<le> fl (- x)" using 2(1) by (simp add: fl_nonneg)
    then have "fl x \<le> 0" by (simp add: fl_minus)
    also have "0 \<le> fl y" using 2(2) by (rule fl_nonneg)
    finally show ?thesis .
  next
    case 3
    then have "0 < - y" and "- y \<le> - x" using assms by simp_all
    from fl_mono_pos [OF this] show ?thesis by (simp add: fl_minus)
  qed
qed

lemma fl_exact_grid:
  assumes "x / pow2 (expo x - 52) = real_of_int k"
  shows "fl x = x"
proof -
  have "fl x = real_of_int k * pow2 (expo x - 52)"
    by (simp add: fl_def Let_def assms rne_of_int)
  also have "\<dots> = x"
    using assms pow2_pos [of "expo x - 52"] by (simp add: field_simps)
  finally show ?thesis .
qed

lemma fl_of_int:
  assumes "\<bar>m\<bar> < 2 ^ 53"
  shows "fl (real_of_int m) = real_of_int m"
proof (cases "m = 0")
  case True
  then show ?thesis by (simp add: fl_zero)
next
  case False
  define x where "x = real_of_int m"
  have x0: "x \<noteq> 0" using False by (simp add: x_def)
  have x1: "1 \<le> \<bar>x\<bar>"
    using False by (simp add: x_def flip: of_int_abs)
  have "pow2 0 \<le> pow2 (expo0 x + 1)"
  proof (rule ccontr)
    assume "\<not> pow2 0 \<le> pow2 (expo0 x + 1)"
    then have "\<bar>x\<bar> < pow2 0"
      using expo0_bounds [OF x0] by linarith
    then show False using x1 by (simp add: pow2_def)
  qed
  have e0: "0 \<le> expo0 x"
  proof (rule ccontr)
    assume "\<not> 0 \<le> expo0 x"
    then have "expo0 x + 1 \<le> 0" by simp
    then have "pow2 (expo0 x + 1) \<le> pow2 0" by (rule pow2_mono)
    then show False
      using expo0_bounds [OF x0] x1 by (simp add: pow2_def)
  qed
  then have ee: "expo x = expo0 x" by (simp add: expo_def)
  have "\<bar>x\<bar> < pow2 53"
    using assms by (simp add: x_def pow2_def flip: of_int_abs)
  have e52: "expo x \<le> 52"
  proof (rule ccontr)
    assume "\<not> expo x \<le> 52"
    then have "53 \<le> expo0 x" using ee by simp
    then have "pow2 53 \<le> pow2 (expo0 x)" by (rule pow2_mono)
    then show False
      using expo0_bounds [OF x0] \<open>\<bar>x\<bar> < pow2 53\<close> by linarith
  qed
  define j where "j = nat (52 - expo x)"
  have u: "pow2 (expo x - 52) = 1 / 2 ^ j"
    using e52 by (cases "expo x = 52") (simp_all add: pow2_def j_def)
  have "x / pow2 (expo x - 52) = x * 2 ^ j"
    by (simp add: u)
  also have "\<dots> = real_of_int (m * 2 ^ j)"
    by (simp add: x_def)
  finally have "fl x = x" by (rule fl_exact_grid)
  then show ?thesis by (simp add: x_def)
qed

lemma fl_of_int_integral: "\<exists>k. fl (real_of_int m) = real_of_int k"
proof (cases "52 \<le> expo (real_of_int m)")
  case True
  define j where "j = nat (expo (real_of_int m) - 52)"
  have u: "pow2 (expo (real_of_int m) - 52) = real_of_int (2 ^ j)"
    using True by (simp add: pow2_def j_def)
  have "fl (real_of_int m)
          = real_of_int (rne (real_of_int m / pow2 (expo (real_of_int m) - 52)) * 2 ^ j)"
    by (simp add: fl_def Let_def u)
  then show ?thesis by blast
next
  case False
  define j where "j = nat (52 - expo (real_of_int m))"
  have u: "pow2 (expo (real_of_int m) - 52) = 1 / 2 ^ j"
    using False by (simp add: pow2_def j_def)
  have "real_of_int m / pow2 (expo (real_of_int m) - 52) = real_of_int (m * 2 ^ j)"
    by (simp add: u)
  from fl_exact_grid [OF this] show ?thesis by blast
qed

lemma startIndex_integral:
  "\<exists>k. fl (real_of_int \<lfloor>fl (s / rh)\<rfloor> - real_of_int buffer) = real_of_int k"
  using fl_of_int_integral [of "\<lfloor>fl (s / rh)\<rfloor> - buffer"] by simp

lemma endIndex_integral:
  "\<exists>k. fl (real_of_int \<lceil>fl (fl (s + c) / rh)\<rceil> + real_of_int buffer) = real_of_int k"
  using fl_of_int_integral [of "\<lceil>fl (fl (s + c) / rh)\<rceil> + buffer"] by simp

section \<open>Properties of the viewport windower\<close>

lemma startIndex_nonneg: "0 \<le> startIndex s rh"
  by (simp add: startIndex_def)

lemma endIndex_le_total: "endIndex n s c rh \<le> int n"
  by (simp add: endIndex_def)

text \<open>
  At zoom 130 the row height is the double next above 46.8, and the scroll offset 702 is
  just short of fifteen rows: the first index is 4.
\<close>

lemma startIndex_zoom_130: "startIndex 702 (rowHeight 130) = 4"
  by code_simp

lemma start_le_end:
  assumes "0 < rh" and "0 \<le> s" and "0 \<le> c" and "fl s = s" and "startIndex s rh \<le> int n"
  shows "startIndex s rh \<le> endIndex n s c rh"
proof -
  define F where "F = \<lfloor>fl (s / rh)\<rfloor>"
  define C where "C = \<lceil>fl (fl (s + c) / rh)\<rceil>"
  define A where "A = \<lfloor>fl (real_of_int F - real_of_int buffer)\<rfloor>"
  define B where "B = \<lfloor>fl (real_of_int C + real_of_int buffer)\<rfloor>"
  have "fl s \<le> fl (s + c)"
    using assms(3) by (intro fl_mono) simp
  then have "s \<le> fl (s + c)"
    by (simp add: assms(4))
  then have "s / rh \<le> fl (s + c) / rh"
    using assms(1) by (simp add: divide_right_mono)
  then have q: "fl (s / rh) \<le> fl (fl (s + c) / rh)"
    by (rule fl_mono)
  have "F \<le> \<lfloor>fl (fl (s + c) / rh)\<rfloor>"
    unfolding F_def using q by (rule floor_mono)
  also have "\<dots> \<le> C"
    unfolding C_def by (rule floor_le_ceiling)
  finally have FC: "F \<le> C" .
  then have "real_of_int F - real_of_int buffer \<le> real_of_int C + real_of_int buffer"
    by (simp add: buffer_def)
  then have AB: "A \<le> B"
    unfolding A_def B_def by (intro floor_mono fl_mono)
  have "0 \<le> fl (s + c)"
    using assms(2,3) by (intro fl_nonneg) simp
  then have "0 \<le> fl (s + c) / rh"
    using assms(1) by simp
  then have "0 \<le> fl (fl (s + c) / rh)"
    by (rule fl_nonneg)
  then have "0 \<le> C"
    unfolding C_def by (simp add: ceiling_le_iff [symmetric] order.trans [OF _ le_of_int_ceiling])
  then have "0 \<le> fl (real_of_int C + real_of_int buffer)"
    by (intro fl_nonneg) (simp add: buffer_def)
  then have B0: "0 \<le> B"
    unfolding B_def by simp
  have st: "startIndex s rh = max 0 A"
    by (simp add: startIndex_def A_def F_def)
  have en: "endIndex n s c rh = min (int n) B"
    by (simp add: endIndex_def B_def C_def)
  show ?thesis
    using AB B0 assms(5) unfolding st en by linarith
qed

lemma length_js_slice:
  assumes "0 \<le> a" and "a \<le> b" and "b \<le> int (length xs)"
  shows "length (js_slice xs a b) = nat (b - a)"
  using assms by (auto simp: js_slice_def Let_def min_def)

lemma set_js_slice: "set (js_slice xs a b) \<subseteq> set xs"
proof -
  have "set (take m (drop k xs)) \<subseteq> set xs" for m k
    using set_take_subset [of m "drop k xs"] set_drop_subset [of k xs] by blast
  then show ?thesis
    by (simp add: js_slice_def Let_def)
qed

lemma length_filter_present:
  assumes "\<forall>r \<in> set rows. r \<noteq> None"
  shows "length (filter (\<lambda>v. v \<noteq> None)
           (map (\<lambda>(index, r). map_option (g index) r) (enumerate k rows))) = length rows"
  using assms by (induction rows arbitrary: k) auto

lemma materializedCount_full:
  assumes "rowsPresent sheet"
    and "startIndex s rh \<le> endIndex (length (data sheet)) s c rh"
  shows "int (materializedCount sheet s c rh)
           = endIndex (length (data sheet)) s c rh - startIndex s rh"
proof -
  define rows where
    "rows = js_slice (data sheet) (startIndex s rh) (endIndex (length (data sheet)) s c rh)"
  have "set rows \<subseteq> set (data sheet)"
    unfolding rows_def by (rule set_js_slice)
  moreover have "\<forall>r \<in> set (data sheet). r \<noteq> None"
    using assms(1) by (simp add: rowsPresent_def list_all_iff)
  ultimately have present: "\<forall>r \<in> set rows. r \<noteq> None"
    by blast
  have "materializedCount sheet s c rh
          = length (filter (\<lambda>v. v \<noteq> None)
              (map (\<lambda>(index, r). map_option (\<lambda>row. (row, startIndex s rh + int index)) r)
                 (enumerate 0 rows)))"
    unfolding materializedCount_def visibleRows_def Let_def rows_def ..
  also have "\<dots> = length rows"
    using present by (rule length_filter_present)
  finally have "materializedCount sheet s c rh = length rows" .
  moreover have "int (length rows) = endIndex (length (data sheet)) s c rh - startIndex s rh"
    using length_js_slice [OF startIndex_nonneg assms(2) endIndex_le_total]
      assms(2) by (simp add: rows_def)
  ultimately show ?thesis by simp
qed

lemma spacers_sum:
  assumes "spacersExact n s c rh"
  shows "topSpacerHeight s rh
           + real_of_int (endIndex n s c rh - startIndex s rh) * rh
           + bottomSpacerHeight n s c rh
         = totalHeight n rh"
proof -
  define start where "start = real_of_int (startIndex s rh)"
  define rest where "rest = real_of_int (int n - endIndex n s c rh)"
  have ex: "fl (start * rh) = start * rh" "fl rest = rest" "fl (rest * rh) = rest * rh"
    "fl (real n * rh) = real n * rh"
    using assms by (simp_all add: spacersExact_def Let_def start_def rest_def)
  have top: "topSpacerHeight s rh = start * rh"
    unfolding topSpacerHeight_def start_def [symmetric] by (simp only: ex(1))
  have bottom: "bottomSpacerHeight n s c rh = rest * rh"
    unfolding bottomSpacerHeight_def rest_def [symmetric] by (simp only: ex(2,3))
  have total: "totalHeight n rh = real n * rh"
    by (simp add: totalHeight_def ex(4))
  have d: "real_of_int (endIndex n s c rh - startIndex s rh) = real n - rest - start"
    by (simp add: start_def rest_def)
  have "start * rh + (real n - rest - start) * rh + rest * rh = real n * rh"
    by (simp add: algebra_simps)
  then show ?thesis
    by (simp only: top bottom total d)
qed

text \<open>
  With a whole-number row height (36 at zoom 100, 18 at zoom 50) and a range inside the
  table, nothing behind the spacers is rounded as long as the total height stays below
  \<open>2\<^sup>5\<^sup>3\<close>.
\<close>

lemma fl_of_int_bounded:
  assumes "0 \<le> m" and "m \<le> k" and "k < 2 ^ 53"
  shows "fl (real_of_int m) = real_of_int m"
  using assms by (intro fl_of_int) simp

lemma spacersExact_whole_rowHeight:
  assumes "rh = real_of_int h" and "0 < h"
    and "startIndex s rh \<le> int n" and "0 \<le> endIndex n s c rh"
    and "int n * h < 2 ^ 53"
  shows "spacersExact n s c rh"
proof -
  define a where "a = startIndex s rh"
  define r where "r = int n - endIndex n s c rh"
  have a0: "0 \<le> a" and an: "a \<le> int n"
    using assms(3) by (simp_all add: a_def startIndex_nonneg)
  have r0: "0 \<le> r" and rn: "r \<le> int n"
    using assms(4) endIndex_le_total [of n s c rh] by (simp_all add: r_def)
  have h1: "1 \<le> h" using assms(2) by simp
  have nn: "int n \<le> int n * h"
    using h1 by (simp add: mult_le_cancel_left1)
  have ah: "a * h \<le> int n * h" and rh': "r * h \<le> int n * h"
    using an rn assms(2) by (simp_all add: mult_right_mono)
  have e1: "fl (real_of_int (a * h)) = real_of_int (a * h)"
    using a0 assms(2) ah assms(5) by (intro fl_of_int_bounded [where k = "int n * h"]) simp_all
  have e2: "fl (real_of_int r) = real_of_int r"
    using r0 rn nn assms(5) by (intro fl_of_int_bounded [where k = "int n * h"]) simp_all
  have e3: "fl (real_of_int (r * h)) = real_of_int (r * h)"
    using r0 assms(2) rh' assms(5) by (intro fl_of_int_bounded [where k = "int n * h"]) simp_all
  have e4: "fl (real_of_int (int n * h)) = real_of_int (int n * h)"
    using assms(2,5) by (intro fl_of_int_bounded [where k = "int n * h"]) simp_all
  have p1: "fl (real_of_int a * rh) = real_of_int a * rh"
    using e1 by (simp add: assms(1))
  have p3: "fl (real_of_int r * rh) = real_of_int r * rh"
    using e3 by (simp add: assms(1))
  have p4: "fl (real n * rh) = real n * rh"
    using e4 by (simp add: assms(1))
  show ?thesis
    unfolding spacersExact_def Let_def a_def [symmetric] r_def [symmetric]
    using p1 e2 p3 p4 by blast
qed

text \<open>
  C1, as the code has it, in the code's double arithmetic. For every sheet and every
  positive row height the computed range satisfies \<open>0 \<le> startIndex\<close> and
  \<open>endIndex \<le> totalRows\<close>. \<open>startIndex \<le> endIndex\<close> holds when the scroll offset (a
  double) and the viewport height are not negative and the computed start index is not
  past the table's end: the start index has no upper clamp of its own. When
  \<open>startIndex \<le> endIndex\<close> and no row is a hole, exactly \<open>endIndex - startIndex\<close> rows are
  materialised; and when moreover none of the numbers behind the spacers is rounded,
  the top spacer, the materialised rows and the bottom spacer add up to the total
  height \<open>totalRows \<times> rowHeight\<close>.
\<close>

theorem windower_range_and_spacers:
  assumes "0 < rh"
  shows "0 \<le> startIndex s rh
       \<and> endIndex (length (data sheet)) s c rh \<le> int (length (data sheet))
       \<and> (0 \<le> s \<and> 0 \<le> c \<and> fl s = s \<and> startIndex s rh \<le> int (length (data sheet))
            \<longrightarrow> startIndex s rh \<le> endIndex (length (data sheet)) s c rh)
       \<and> (rowsPresent sheet \<and> startIndex s rh \<le> endIndex (length (data sheet)) s c rh
            \<longrightarrow> int (materializedCount sheet s c rh)
                  = endIndex (length (data sheet)) s c rh - startIndex s rh)
       \<and> (rowsPresent sheet \<and> startIndex s rh \<le> endIndex (length (data sheet)) s c rh
            \<and> spacersExact (length (data sheet)) s c rh
            \<longrightarrow> topSpacerHeight s rh + real (materializedCount sheet s c rh) * rh
                  + bottomSpacerHeight (length (data sheet)) s c rh
                = totalHeight (length (data sheet)) rh)"
proof (intro conjI impI)
  show "0 \<le> startIndex s rh"
    by (rule startIndex_nonneg)
  show "endIndex (length (data sheet)) s c rh \<le> int (length (data sheet))"
    by (rule endIndex_le_total)
  show "startIndex s rh \<le> endIndex (length (data sheet)) s c rh"
    if "0 \<le> s \<and> 0 \<le> c \<and> fl s = s \<and> startIndex s rh \<le> int (length (data sheet))"
    using start_le_end [OF assms, of s c "length (data sheet)"] that by blast
  show "int (materializedCount sheet s c rh)
          = endIndex (length (data sheet)) s c rh - startIndex s rh"
    if "rowsPresent sheet \<and> startIndex s rh \<le> endIndex (length (data sheet)) s c rh"
    using materializedCount_full [of sheet s rh c] that by blast
  show "topSpacerHeight s rh + real (materializedCount sheet s c rh) * rh
          + bottomSpacerHeight (length (data sheet)) s c rh
        = totalHeight (length (data sheet)) rh"
    if h: "rowsPresent sheet \<and> startIndex s rh \<le> endIndex (length (data sheet)) s c rh
           \<and> spacersExact (length (data sheet)) s c rh"
  proof -
    have "int (materializedCount sheet s c rh)
            = endIndex (length (data sheet)) s c rh - startIndex s rh"
      using materializedCount_full [of sheet s rh c] h by blast
    then have "real (materializedCount sheet s c rh)
                 = real_of_int (endIndex (length (data sheet)) s c rh - startIndex s rh)"
      by (metis of_int_of_nat_eq)
    then show ?thesis
      using spacers_sum [of "length (data sheet)" s c rh] h by simp
  qed
qed

theorem windower_range_and_spacers_witness:
  "(0::real) < 36 \<and> rowHeight 100 = 36 \<and> length (data (sheet_rows 50)) = 50
   \<and> fl 720 = 720 \<and> rowsPresent (sheet_rows 50) \<and> spacersExact 50 720 360 36
   \<and> startIndex 720 36 = 10 \<and> endIndex 50 720 360 36 = 40
   \<and> materializedCount (sheet_rows 50) 720 360 36 = 30
   \<and> topSpacerHeight 720 36 = 360 \<and> bottomSpacerHeight 50 720 360 36 = 360
   \<and> totalHeight 50 36 = 1800
   \<and> topSpacerHeight 720 36 + real (materializedCount (sheet_rows 50) 720 360 36) * 36
        + bottomSpacerHeight 50 720 360 36 = totalHeight 50 36"
proof -
  have len: "length (data (sheet_rows 50)) = 50"
    by (simp add: sheet_rows_def)
  have ev: "rowHeight 100 = 36" "fl 720 = 720" "rowsPresent (sheet_rows 50)"
    "spacersExact 50 720 360 36" "startIndex 720 36 = 10" "endIndex 50 720 360 36 = 40"
    "topSpacerHeight 720 36 = 360" "bottomSpacerHeight 50 720 360 36 = 360"
    "totalHeight 50 36 = 1800"
    by code_simp+
  show ?thesis
    using windower_range_and_spacers [of 36 720 "sheet_rows 50" 360] len ev by simp
qed

text \<open>
  The claim as stated fails in both parts. Five rows of height 36 with the scroll offset
  left at 3600 give the range \<open>[90, 5)\<close>: no row is materialised and the spacers add up
  to 3240, not 180. At zoom 30 the row height is the double nearest to 10.8; fifty rows
  at scroll offset 0 in a viewport of 360 give the range \<open>[0, 44)\<close>, and the top spacer,
  44 rows and the bottom spacer add up to less than the total height 540.
\<close>

theorem windower_start_after_end_counterexample:
  "startIndex 3600 36 = 90 \<and> endIndex 5 3600 360 36 = 5
   \<and> \<not> (startIndex 3600 36 \<le> endIndex 5 3600 360 36)
   \<and> materializedCount (sheet_rows 5) 3600 360 36 = 0
   \<and> topSpacerHeight 3600 36 + real (materializedCount (sheet_rows 5) 3600 360 36) * 36
        + bottomSpacerHeight 5 3600 360 36 = 3240
   \<and> totalHeight 5 36 = 180
   \<and> startIndex 0 (rowHeight 30) = 0 \<and> endIndex 50 0 360 (rowHeight 30) = 44
   \<and> totalHeight 50 (rowHeight 30) = 540
   \<and> topSpacerHeight 0 (rowHeight 30)
        + real_of_int (endIndex 50 0 360 (rowHeight 30) - startIndex 0 (rowHeight 30))
            * rowHeight 30
        + bottomSpacerHeight 50 0 360 (rowHeight 30) < totalHeight 50 (rowHeight 30)"
  by code_simp

section \<open>Diff classification\<close>

lemma getCellClass_past_last_row:
  assumes "int (length (data cs)) \<le> i"
  shows "getCellClass numStr (Some cs) i c v = NEW_ROW_CLASS"
  using assms by (simp add: getCellClass_def js_get_def js_index_def)

lemma getCellClass_row_present:
  assumes "js_get (data cs) i = Some r"
  shows "getCellClass numStr (Some cs) i c v =
           (if js_String numStr v \<noteq> js_String numStr (orEmpty (r c)) then CHANGED_CLASS else [])"
  using assms by (simp add: getCellClass_def)

lemma getCellClass_same_value_unchanged:
  assumes "js_get (data cs) i = Some r" and "r c = Some x" and "x \<noteq> Null"
  shows "getCellClass numStr (Some cs) i c (Some x) = []"
  using assms by (cases x) (simp_all add: getCellClass_def)

text \<open>
  C2 says that two identical values, two nulls included, classify as unchanged. The
  primary value is converted with \<^verbatim>\<open>String(val)\<close>, which prints null as \<^verbatim>\<open>null\<close>, while
  only the comparison value goes through \<^verbatim>\<open>?? ''\<close>: a null cell compared with a null cell
  at the same row and column is classified as changed, in both variants.
\<close>

theorem getCellClass_two_nulls_changed:
  "cellAt (data sheet_nulls) 0 ''A'' = Some Null
   \<and> getCellClass intStr (Some sheet_nulls) 0 ''A'' (cellAt (data sheet_nulls) 0 ''A'')
       = CHANGED_CLASS
   \<and> compareCellClass intStr (Some sheet_nulls) 0 ''A'' (cellAt (data sheet_nulls) 0 ''A'')
       = BASE_CELL_CLASS @ CHANGED_CLASS @ '' ''
   \<and> CHANGED_CLASS \<noteq> []"
  by (simp add: getCellClass_def compareCellClass_def cellAt_def sheet_nulls_def js_get_def
      js_index_def CHANGED_CLASS_def)

section \<open>Edit commit and cancel\<close>

lemma saveEditBody_editing:
  assumes "editingCell render = Some (r, c)"
  shows "snd (saveEditBody sheet render pending) = [(r, c, editValue render)]
       \<and> editingCell (fst (saveEditBody sheet render pending)) = None"
  using assms by (simp add: saveEditBody_def Let_def)

lemma blur_commit_calls_once:
  assumes "editingCell st = Some (r, c)"
  shows "snd (inputBlur sheet st) = [(r, c, editValue st)]
       \<and> editingCell (fst (inputBlur sheet st)) = None"
  using assms by (simp add: inputBlur_def saveEdit_def saveEditBody_def Let_def)

lemma container_enter_calls_once:
  assumes "editingCell st = Some (r, c)"
  shows "\<exists>st'. handleKeyDown numStr sheet Enter shiftKey st = Inr (st', [(r, c, editValue st)])
              \<and> editingCell st' = None"
  using assms by (simp add: handleKeyDown_def saveEdit_def saveEditBody_def Let_def)

lemma escape_makes_no_call:
  assumes "editingCell st = Some (r, c)"
  shows "inputKeyDown sheet Escape st = (st\<lparr>editingCell := None\<rparr>, [])
       \<and> handleKeyDown numStr sheet Escape shiftKey st = Inr (st\<lparr>editingCell := None\<rparr>, [])"
  using assms by (simp add: inputKeyDown_def handleKeyDown_def)

lemma commit_v2_calls_once:
  assumes "editingCell st2 = Some (r, c)"
  shows "snd (handleKeyDown_v2 Enter st2) = [(r, c, editValue st2)]
       \<and> editingCell (fst (handleKeyDown_v2 Enter st2)) = None
       \<and> snd (saveEdit_v2 st2) = [(r, c, editValue st2)]
       \<and> editingCell (fst (saveEdit_v2 st2)) = None
       \<and> handleKeyDown_v2 Escape st2 = (st2\<lparr>editingCell := None\<rparr>, [])"
  using assms by (simp add: handleKeyDown_v2_def saveEdit_v2_def)

lemma input_enter_calls_twice:
  assumes "editingCell st = Some (r, c)"
  shows "snd (inputKeyDown sheet Enter st) = [(r, c, editValue st), (r, c, editValue st)]
       \<and> editingCell (fst (inputKeyDown sheet Enter st)) = None"
  using assms by (simp add: inputKeyDown_def saveEdit_def saveEditBody_def Let_def)

text \<open>
  C3 says that a commit calls \<^verbatim>\<open>onCellEdit\<close> exactly once. In the first variant Enter in
  the edit input calls it twice with the same arguments: \<^verbatim>\<open>saveEdit\<close> makes the call,
  then moves the focus to the container, which blurs the input, and the input's
  \<^verbatim>\<open>onBlur\<close> is \<^verbatim>\<open>saveEdit\<close> again, on the state of the same render. Editing row 0,
  column A with the draft \<^verbatim>\<open>42\<close>: two calls \<^verbatim>\<open>onCellEdit(0, 'A', '42')\<close>. The edit
  session ends, the arguments are the cell and the draft as typed, a commit by blur
  makes one call, Escape makes none, and the second variant, which does not move the
  focus, makes one call.
\<close>

theorem enter_in_edit_input_calls_onCellEdit_twice:
  "editingCell st_editing = Some (0, Some ''A'') \<and> editValue st_editing = ''42''
   \<and> inputKeyDown sheet_abc Enter st_editing
       = (initial_state\<lparr>editValue := ''42'', selectedCell := Some (0, 0)\<rparr>,
          [(0, Some ''A'', ''42''), (0, Some ''A'', ''42'')])
   \<and> snd (inputBlur sheet_abc st_editing) = [(0, Some ''A'', ''42'')]
   \<and> snd (inputKeyDown sheet_abc Escape st_editing) = []
   \<and> snd (handleKeyDown_v2 Enter st_editing_v2) = [(1, Some ''B'', ''x'')]"
  by (simp add: st_editing_def st_editing_v2_def initial_state_def initial_state_v2_def
      inputKeyDown_def inputBlur_def saveEdit_def saveEditBody_def handleKeyDown_v2_def
      saveEdit_v2_def sheet_abc_def Let_def)

section \<open>Interactive column resize\<close>

lemma handleMouseMove_width:
  "colWidths (handleMouseMove z x (startResizing col x0 st)) col
     = Some (max 50 (fl (widthOrDefault (colWidths st col) + fl (fl (x0 - x) * fl (100 / z)))))"
  by (simp add: handleMouseMove_def startResizing_def Let_def)


lemma st_wide_width: "widthOrDefault (colWidths st_wide ''A'') = 150"
  by (simp add: st_wide_def initial_state_def widthOrDefault_def)

text \<open>
  At zoom 100 with a whole-number width and delta the scaled delta is the delta and the
  sum of the first drag is exact.
\<close>

lemma resize_sum_exact_at_zoom_100:
  assumes "w0 = real_of_int a" and "d = real_of_int b"
    and "\<bar>b\<bar> < 2 ^ 53" and "\<bar>a + b\<bar> < 2 ^ 53"
  shows "fl (w0 + fl (d * fl (100 / 100))) = w0 + fl (d * fl (100 / 100))"
proof -
  have one: "fl 1 = 1"
    using fl_of_int [of 1] by simp
  have fb: "fl (real_of_int b) = real_of_int b"
    using assms(3) by (rule fl_of_int)
  have fab: "fl (real_of_int (a + b)) = real_of_int (a + b)"
    using assms(4) by (rule fl_of_int)
  show ?thesis
    using fab by (simp add: assms(1,2) one fb)
qed

text \<open>
  C4, as the code has it. A drag that starts on a column at pointer position \<open>x0\<close> and
  moves to \<open>x\<close>, at a positive zoom level, sets the column's base width to the width at
  the start of the drag (150 when the column has none) plus \<open>(x0 - x) \<times> 100 / zoom\<close>,
  each operation in double arithmetic, clamped from below at 50; the new width is never
  below 50, there is no upper clamp, and no other column changes.
\<close>

theorem resize_step_width:
  assumes "0 < z"
  shows "colWidths (handleMouseMove z x (startResizing col x0 st)) col
           = Some (max 50 (fl (widthOrDefault (colWidths st col)
                               + fl (fl (x0 - x) * fl (100 / z)))))
       \<and> (\<forall>w. colWidths (handleMouseMove z x (startResizing col x0 st)) col = Some w
              \<longrightarrow> 50 \<le> w)
       \<and> (\<forall>c. c \<noteq> col \<longrightarrow>
              colWidths (handleMouseMove z x (startResizing col x0 st)) c = colWidths st c)"
  by (simp add: handleMouseMove_def startResizing_def Let_def)

theorem resize_step_width_witness:
  "(0::real) < 50
   \<and> colWidths (handleMouseMove 50 180 (startResizing ''A'' 200 st_wide)) ''A'' = Some 190
   \<and> (50::real) \<le> 190
   \<and> colWidths (handleMouseMove 50 180 (startResizing ''A'' 200 st_wide)) ''B''
       = colWidths st_wide ''B''"
proof -
  have ev: "max 50 (fl (150 + fl (fl (200 - 180) * fl (100 / 50)))) = 190"
    by code_simp
  have "(0::real) < 50" by simp
  from resize_step_width [OF this, of 180 "''A''" 200 st_wide]
  show ?thesis
    by (simp only: st_wide_width ev) simp
qed

text \<open>
  The claim as stated, with the clamp to \<open>[60, 800]\<close>, fails: from the width 150 at zoom
  100 a drag of 1000 pixels to the left gives 1150, and a drag of 95 pixels to the right
  gives 55.
\<close>

theorem resize_step_outside_60_800_counterexample:
  "colWidths (handleMouseMove 100 0 (startResizing ''A'' 1000 st_wide)) ''A'' = Some 1150
   \<and> \<not> (1150 \<le> (800::real))
   \<and> colWidths (handleMouseMove 100 95 (startResizing ''A'' 0 st_wide)) ''A'' = Some 55
   \<and> \<not> ((60::real) \<le> 55)"
proof -
  have ev: "max 50 (fl (150 + fl (fl (1000 - 0) * fl (100 / 100)))) = 1150"
    "max 50 (fl (150 + fl (fl (0 - 95) * fl (100 / 100)))) = 55"
    by code_simp+
  show ?thesis
    by (simp only: handleMouseMove_width st_wide_width ev) simp
qed




section \<open>Tab navigation\<close>

lemma tab_keeps_row:
  assumes "editingCell st = None" and "selectedCell st = Some (row, colIdx)"
  shows "handleKeyDown numStr sheet Tab False st
           = Inr (st\<lparr>selectedCell :=
                       Some (row, min (int (length (columns sheet)) - 1) (colIdx + 1))\<rparr>, [])"
  using assms by (simp add: handleKeyDown_def)

lemma shift_tab_first_row:
  assumes "editingCell st = None" and "selectedCell st = Some (0, colIdx)"
  shows "handleKeyDown numStr sheet Tab True st
           = Inr (st\<lparr>selectedCell := Some (0, max 0 (colIdx - 1))\<rparr>, [])"
  using assms by (simp add: handleKeyDown_def)

text \<open>
  C5 says that Shift+Tab moves one column backward and wraps to the previous row's last
  column only at the first column. The code tests the column index after the move
  (\<^verbatim>\<open>newColIdx === 0\<close>), so from the second column of any row but the first it wraps too
  and never selects the first column: on three columns and two rows, Shift+Tab at
  row 1, column 1 selects row 0, column 2, not row 1, column 0.
\<close>

theorem shift_tab_from_second_column_skips_first:
  "handleKeyDown intStr sheet_abc Tab True (initial_state\<lparr>selectedCell := Some (1, 1)\<rparr>)
     = Inr (initial_state\<lparr>selectedCell := Some (0, 2)\<rparr>, [])
   \<and> Some (0 :: int, 2 :: int) \<noteq> Some (1, 0)"
  by (simp add: handleKeyDown_def sheet_abc_def initial_state_def)

section \<open>Reset on sheet change\<close>

lemma initialWidths_fold:
  "fold (\<lambda>c m. m(c \<mapsto> 150)) cols m0 x = (if x \<in> set cols then Some 150 else m0 x)"
  by (induction cols arbitrary: m0) auto

lemma initialWidths_apply:
  "initialWidths cols x = (if x \<in> set cols then Some 150 else None)"
  by (simp add: initialWidths_def initialWidths_fold)

text \<open>
  C6. When the sheet's id differs from the id of the previous render, the reset effect
  runs: afterwards exactly the columns of the new sheet have a width, each 150, there is
  no selection and no edit session. The second variant has no selection; its widths and
  edit session are reset in the same way.
\<close>

theorem sheet_change_resets_state:
  assumes "prevId \<noteq> sheet_id sheet"
  shows "colWidths (sheetEffect prevId sameColumnsArray sheet st)
           = (\<lambda>c. if c \<in> set (columns sheet) then Some 150 else None)
       \<and> selectedCell (sheetEffect prevId sameColumnsArray sheet st) = None
       \<and> editingCell (sheetEffect prevId sameColumnsArray sheet st) = None
       \<and> colWidths (sheetEffect_v2 prevId sameColumnsArray sheet st2)
           = (\<lambda>c. if c \<in> set (columns sheet) then Some 150 else None)
       \<and> editingCell (sheetEffect_v2 prevId sameColumnsArray sheet st2) = None"
  using assms
  by (auto simp: sheetEffect_def sheetEffect_v2_def depsChanged_def resetOnSheetChange_def
      resetOnSheetChange_v2_def initialWidths_apply)

theorem sheet_change_resets_state_witness:
  "''s0'' \<noteq> sheet_id sheet_abc
   \<and> selectedCell st_stale = Some (9, 2)
   \<and> colWidths (sheetEffect ''s0'' True sheet_abc st_stale) ''A'' = Some 150
   \<and> colWidths (sheetEffect ''s0'' True sheet_abc st_stale) ''Z'' = None
   \<and> selectedCell (sheetEffect ''s0'' True sheet_abc st_stale) = None
   \<and> editingCell (sheetEffect ''s0'' True sheet_abc st_stale) = None
   \<and> colWidths (sheetEffect_v2 ''s0'' True sheet_abc st_stale_v2) ''Z'' = None
   \<and> editingCell (sheetEffect_v2 ''s0'' True sheet_abc st_stale_v2) = None"
  using sheet_change_resets_state [of "''s0''" sheet_abc True st_stale st_stale_v2]
  by (simp add: sheet_abc_def st_stale_def initial_state_def)

section \<open>Auto size without a measurement context\<close>

text \<open>
  C8. When the canvas context cannot be obtained, auto size returns normally and leaves
  the whole state, and so every column width, as it was: for all columns, for a single
  column (double click on a resize handle) and in the second variant.
\<close>

theorem autoSize_without_context_noop:
  "performAutoSize numStr None specificCol sheet st = Inr st
   \<and> autoSizeColumns numStr None sheet st = Inr st
   \<and> autoSizeColumns_v2 numStr None sheet st2 = Inr st2
   \<and> gridStep numStr sheet zoomLevel st (AutoSize None) = Inr (st, [])
   \<and> gridStep numStr sheet zoomLevel st (ResizerDoubleClick col None) = Inr (st, [])"
  by (simp add: performAutoSize_def autoSizeColumns_def autoSizeColumns_v2_def gridStep_def)

theorem autoSize_without_context_noop_witness:
  "autoSizeColumns intStr None sheet_abc st_wide = Inr st_wide
   \<and> colWidths st_wide ''A'' = Some 150
   \<and> autoSizeColumns_v2 intStr None sheet_abc st_stale_v2 = Inr st_stale_v2"
  using autoSize_without_context_noop [of intStr None sheet_abc st_wide st_stale_v2 100 "''A''"]
  by (simp add: st_wide_def)

section \<open>The selection stays in bounds\<close>

lemma indexOf_range:
  "indexOf xs x = - 1 \<or> (0 \<le> indexOf xs x \<and> indexOf xs x < int (length xs))"
  by (induction xs) (auto simp: Let_def)

lemma performAutoSize_frame:
  assumes "performAutoSize numStr ctx specificCol sheet st = Inr st'"
  shows "selectedCell st' = selectedCell st \<and> editingCell st' = editingCell st"
  using assms
  by (auto simp: performAutoSize_def Let_def split: option.splits sum.splits)

lemma gridInv_frame:
  assumes "selectedCell st' = selectedCell st" and "editingCell st' = editingCell st"
  shows "gridInv sheet st' = gridInv sheet st"
  using assms by (simp add: gridInv_def selectionInBounds_def editRowInBounds_def)

lemma gridInv_selected:
  assumes "gridInv sheet st" and "selectedCell st = Some (row, colIdx)"
  shows "0 \<le> row \<and> row < int (length (data sheet))
         \<and> 0 \<le> colIdx \<and> colIdx < int (length (columns sheet))"
  using assms by (simp add: gridInv_def selectionInBounds_def)

lemma handleMouseMove_frame:
  "selectedCell (handleMouseMove z x st) = selectedCell st
   \<and> editingCell (handleMouseMove z x st) = editingCell st"
  by (simp add: handleMouseMove_def Let_def split: option.splits)

lemma handleMouseUp_frame:
  "selectedCell (handleMouseUp st) = selectedCell st
   \<and> editingCell (handleMouseUp st) = editingCell st"
  by (simp add: handleMouseUp_def split: option.splits)

lemma saveEditBody_inv:
  assumes "gridInv sheet render" and "gridInv sheet pending"
  shows "gridInv sheet (fst (saveEditBody sheet render pending))"
proof (cases "editingCell render")
  case None
  then show ?thesis using assms(2) by (simp add: saveEditBody_def)
next
  case (Some rc)
  obtain r c where rc: "rc = (r, c)" by (cases rc)
  have rb: "0 \<le> r \<and> r < int (length (data sheet))"
    using assms(1) Some rc by (simp add: gridInv_def editRowInBounds_def)
  show ?thesis
  proof (cases c)
    case None
    then show ?thesis
      using assms(2) Some rc
      by (simp add: saveEditBody_def gridInv_def selectionInBounds_def editRowInBounds_def)
  next
    case (Some cn)
    then show ?thesis
      using assms(2) \<open>editingCell render = Some rc\<close> rc rb
        indexOf_range [of "columns sheet" cn]
      by (auto simp: saveEditBody_def Let_def gridInv_def selectionInBounds_def
          editRowInBounds_def)
  qed
qed

lemma saveEdit_inv:
  assumes "gridInv sheet st"
  shows "gridInv sheet (fst (saveEdit sheet inputFocused st))"
proof -
  have one: "gridInv sheet (fst (saveEditBody sheet st st))"
    using assms assms by (rule saveEditBody_inv)
  have two: "gridInv sheet (fst (saveEditBody sheet st (fst (saveEditBody sheet st st))))"
    using assms one by (rule saveEditBody_inv)
  show ?thesis
    using one two by (simp add: saveEdit_def Let_def split_beta)
qed

lemma handleKeyDown_inv:
  assumes "gridInv sheet st" and "handleKeyDown numStr sheet k shiftKey st = Inr (st', calls)"
  shows "gridInv sheet st'"
proof (cases "editingCell st")
  case (Some rc)
  then show ?thesis
    using assms saveEdit_inv [OF assms(1), of False]
    by (auto simp: handleKeyDown_def gridInv_def selectionInBounds_def editRowInBounds_def
        split: if_splits)
next
  case None
  show ?thesis
  proof (cases "selectedCell st")
    case None
    then show ?thesis
      using assms \<open>editingCell st = None\<close> by (simp add: handleKeyDown_def)
  next
    case (Some rc)
    obtain row colIdx where rc: "rc = (row, colIdx)" by (cases rc)
    have b: "0 \<le> row \<and> row < int (length (data sheet))
             \<and> 0 \<le> colIdx \<and> colIdx < int (length (columns sheet))"
      using assms(1) Some rc by (simp add: gridInv_def selectionInBounds_def)
    show ?thesis
      using assms \<open>editingCell st = None\<close> Some rc b
      by (cases k)
         (auto simp: handleKeyDown_def gridInv_def selectionInBounds_def editRowInBounds_def
            startEditing_def Let_def split: if_splits option.splits)
  qed
qed

lemma gridStep_inv:
  assumes "gridInv sheet st" and "eventOk sheet ev"
    and "gridStep numStr sheet zoomLevel st ev = Inr (st', calls)"
  shows "gridInv sheet st'"
proof (cases ev)
  case (KeyDown k shiftKey)
  then show ?thesis
    using assms handleKeyDown_inv [of sheet st numStr k shiftKey st' calls]
    by (simp add: gridStep_def)
next
  case (InputKeyDown k)
  then show ?thesis
    using assms saveEdit_inv [OF assms(1), of True]
    by (auto simp: gridStep_def inputKeyDown_def gridInv_def selectionInBounds_def
        editRowInBounds_def split: if_splits)
next
  case InputBlur
  then show ?thesis
    using assms saveEdit_inv [OF assms(1), of False] by (auto simp: gridStep_def inputBlur_def)
next
  case (InputChange v)
  then have "st' = inputChange v st"
    using assms(3) by (simp add: gridStep_def)
  then have "selectedCell st' = selectedCell st" and "editingCell st' = editingCell st"
    by (simp_all add: inputChange_def)
  then show ?thesis
    using assms(1) gridInv_frame by blast
next
  case (CellClick rowIdx colIdx)
  then have "st' = handleCellClick rowIdx colIdx st"
    using assms(3) by (simp add: gridStep_def)
  then show ?thesis
    using assms(1,2) CellClick
    by (simp add: handleCellClick_def eventOk_def gridInv_def selectionInBounds_def
        editRowInBounds_def)
next
  case (CellDoubleClick rowIdx col val)
  then have "st' = startEditing numStr rowIdx (Some col) val st"
    using assms(3) by (simp add: gridStep_def)
  then show ?thesis
    using assms(1,2) CellDoubleClick
    by (simp add: startEditing_def eventOk_def gridInv_def selectionInBounds_def
        editRowInBounds_def)
next
  case (Scroll y)
  then have "st' = st\<lparr>scrollTop := y\<rparr>"
    using assms(3) by (simp add: gridStep_def)
  then have "selectedCell st' = selectedCell st" and "editingCell st' = editingCell st"
    by simp_all
  then show ?thesis
    using assms(1) gridInv_frame by blast
next
  case (WindowResize h)
  then have "st' = st\<lparr>containerHeight := h\<rparr>"
    using assms(3) by (simp add: gridStep_def)
  then have "selectedCell st' = selectedCell st" and "editingCell st' = editingCell st"
    by simp_all
  then show ?thesis
    using assms(1) gridInv_frame by blast
next
  case (ResizerMouseDown col x)
  then have "st' = startResizing col x st"
    using assms(3) by (simp add: gridStep_def)
  then have "selectedCell st' = selectedCell st" and "editingCell st' = editingCell st"
    by (simp_all add: startResizing_def)
  then show ?thesis
    using assms(1) gridInv_frame by blast
next
  case (MouseMove x)
  then have "st' = (if isResizing st then handleMouseMove zoomLevel x st else st)"
    using assms(3) by (simp add: gridStep_def)
  then have "selectedCell st' = selectedCell st" and "editingCell st' = editingCell st"
    by (simp_all add: handleMouseMove_frame)
  then show ?thesis
    using assms(1) gridInv_frame by blast
next
  case MouseUp
  then have "st' = (if isResizing st then handleMouseUp st else st)"
    using assms(3) by (simp add: gridStep_def)
  then have "selectedCell st' = selectedCell st" and "editingCell st' = editingCell st"
    by (simp_all add: handleMouseUp_frame)
  then show ?thesis
    using assms(1) gridInv_frame by blast
next
  case (ResizerDoubleClick col ctx)
  then have "performAutoSize numStr ctx (Some col) sheet st = Inr st'"
    using assms(3) by (auto simp: gridStep_def split: sum.splits)
  from performAutoSize_frame [OF this] show ?thesis
    using assms(1) gridInv_frame by blast
next
  case (AutoSize ctx)
  then have "performAutoSize numStr ctx None sheet st = Inr st'"
    using assms(3) by (auto simp: gridStep_def autoSizeColumns_def split: sum.splits)
  from performAutoSize_frame [OF this] show ?thesis
    using assms(1) gridInv_frame by blast
qed

lemma reachable_inv:
  assumes "reachable numStr sheet st"
  shows "gridInv sheet st"
  using assms
proof (induction rule: reachable.induct)
  case reachable_init
  show ?case
    by (simp add: gridInv_def selectionInBounds_def editRowInBounds_def initial_state_def)
next
  case (reachable_reset st)
  show ?case
    by (simp add: gridInv_def selectionInBounds_def editRowInBounds_def resetOnSheetChange_def)
next
  case (reachable_step st ev zoomLevel st' calls)
  then show ?case using gridStep_inv by blast
qed

lemma js_get_present:
  assumes "list_all (\<lambda>r. r \<noteq> None) xs" and "0 \<le> i" and "i < int (length xs)"
  shows "\<exists>r. js_get xs i = Some r"
proof -
  have "nat i < length xs"
    using assms(2,3) by simp
  then have "xs ! nat i \<noteq> None"
    using assms(1) by (simp add: list_all_length)
  then show ?thesis
    using assms(2,3) by (auto simp: js_get_def js_index_def)
qed

lemma handleKeyDown_returns:
  assumes "gridInv sheet st" and "rowsPresent sheet"
  shows "\<exists>res. handleKeyDown numStr sheet k shiftKey st = Inr res"
proof (cases "editingCell st")
  case (Some rc)
  then show ?thesis by (simp add: handleKeyDown_def)
next
  case None
  show ?thesis
  proof (cases "selectedCell st")
    case None
    then show ?thesis
      using \<open>editingCell st = None\<close> by (simp add: handleKeyDown_def)
  next
    case (Some rc)
    obtain row colIdx where rc: "rc = (row, colIdx)" by (cases rc)
    have "0 \<le> row \<and> row < int (length (data sheet))"
      using assms(1) Some rc by (simp add: gridInv_def selectionInBounds_def)
    then obtain r where r: "js_get (data sheet) row = Some r"
      using js_get_present [of "data sheet" row] assms(2) by (auto simp: rowsPresent_def)
    show ?thesis
      using \<open>editingCell st = None\<close> Some rc r
      by (cases k) (simp_all add: handleKeyDown_def Let_def)
  qed
qed

lemma reachable_st_selected: "reachable intStr sheet_abc st_selected"
proof -
  have ok: "eventOk sheet_abc (CellClick 0 1 :: int event)"
    by (simp add: eventOk_def sheet_abc_def)
  have step: "gridStep intStr sheet_abc 100 initial_state (CellClick 0 1) = Inr (st_selected, [])"
    by (simp add: gridStep_def handleCellClick_def st_selected_def)
  show ?thesis
    by (rule reachable_step [OF reachable_init ok step])
qed

text \<open>
  C9. On a fixed sheet, in every state the grid reaches from its initial state by clicks
  on existing cells, double clicks, key presses, edit commits and the other events, a
  selected cell \<open>(row, colIdx)\<close> satisfies \<open>0 \<le> row < rowCount\<close> and
  \<open>0 \<le> colIdx < columnCount\<close>; whatever key is pressed in such a state, the selection
  after it is in bounds again; and when no row of the sheet is a hole, the key handler
  returns normally for every key.
\<close>

theorem reachable_selection_in_bounds:
  assumes "reachable numStr sheet st"
  shows "(\<forall>row colIdx. selectedCell st = Some (row, colIdx) \<longrightarrow>
            0 \<le> row \<and> row < int (length (data sheet))
            \<and> 0 \<le> colIdx \<and> colIdx < int (length (columns sheet)))
       \<and> (\<forall>k shiftKey zoomLevel st' calls row colIdx.
            gridStep numStr sheet zoomLevel st (KeyDown k shiftKey) = Inr (st', calls)
            \<and> selectedCell st' = Some (row, colIdx) \<longrightarrow>
            0 \<le> row \<and> row < int (length (data sheet))
            \<and> 0 \<le> colIdx \<and> colIdx < int (length (columns sheet)))
       \<and> (rowsPresent sheet \<longrightarrow>
            (\<forall>k shiftKey zoomLevel.
               \<exists>res. gridStep numStr sheet zoomLevel st (KeyDown k shiftKey) = Inr res))"
proof (intro conjI allI impI)
  have here: "gridInv sheet st"
    using assms by (rule reachable_inv)
  {
    fix row colIdx
    assume "selectedCell st = Some (row, colIdx)"
    from gridInv_selected [OF here this]
    show "0 \<le> row" and "row < int (length (data sheet))"
      and "0 \<le> colIdx" and "colIdx < int (length (columns sheet))"
      by simp_all
  }
  {
    fix k shiftKey zoomLevel st' calls row colIdx
    assume a: "gridStep numStr sheet zoomLevel st (KeyDown k shiftKey) = Inr (st', calls)
               \<and> selectedCell st' = Some (row, colIdx)"
    have ok: "eventOk sheet (KeyDown k shiftKey :: 'a event)"
      by (simp add: eventOk_def)
    have "gridInv sheet st'"
      using gridStep_inv [OF here ok] a by blast
    from gridInv_selected [OF this] a
    show "0 \<le> row" and "row < int (length (data sheet))"
      and "0 \<le> colIdx" and "colIdx < int (length (columns sheet))"
      by simp_all
  }
  {
    fix k shiftKey zoomLevel
    assume "rowsPresent sheet"
    from handleKeyDown_returns [OF here this, of numStr k shiftKey]
    show "\<exists>res. gridStep numStr sheet zoomLevel st (KeyDown k shiftKey) = Inr res"
      by (simp add: gridStep_def)
  }
qed

theorem reachable_selection_in_bounds_witness:
  "reachable intStr sheet_abc st_selected
   \<and> rowsPresent sheet_abc
   \<and> selectedCell st_selected = Some (0, 1)
   \<and> (0::int) < int (length (data sheet_abc)) \<and> (1::int) < int (length (columns sheet_abc))
   \<and> gridStep intStr sheet_abc 100 st_selected (KeyDown ArrowDown False)
        = Inr (initial_state\<lparr>selectedCell := Some (1, 1)\<rparr>, [])
   \<and> (1::int) < int (length (data sheet_abc))"
  using reachable_selection_in_bounds [OF reachable_st_selected] reachable_st_selected
  by (simp add: st_selected_def gridStep_def handleKeyDown_def initial_state_def sheet_abc_def
      rowsPresent_def)

section \<open>The host's edit handler changes one cell\<close>

lemma js_get_js_set:
  "js_get (js_set xs i v) j = (if j = int i then Some v else js_get xs j)"
  by (auto simp: js_get_def js_index_def js_set_def nth_append nth_list_update split: if_splits)

lemma length_js_set: "i < length xs \<Longrightarrow> length (js_set xs i v) = length xs"
  by (simp add: js_set_def)

lemma editSheet_frame:
  "sheet_id (editSheet i k v s) = sheet_id s \<and> name (editSheet i k v s) = name s
   \<and> columns (editSheet i k v s) = columns s \<and> sheet_type (editSheet i k v s) = sheet_type s
   \<and> (\<forall>j. j \<noteq> int i \<longrightarrow> js_get (data (editSheet i k v s)) j = js_get (data s) j)
   \<and> (\<forall>c. c \<noteq> k \<longrightarrow> cellAt (data (editSheet i k v s)) (int i) c = cellAt (data s) (int i) c)
   \<and> cellAt (data (editSheet i k v s)) (int i) k = Some (Str v)
   \<and> (i < length (data s) \<longrightarrow> length (data (editSheet i k v s)) = length (data s))"
  by (auto simp: editSheet_def Let_def js_get_js_set cellAt_def length_js_set split: option.splits)

text \<open>
  C10. The edit handler returns as many sheets as it was given. A sheet whose id is not
  the active id is returned as it is. Every sheet keeps its id, name, column list and
  type; its rows at every index other than \<open>rowIndex\<close> are the same; in the row at
  \<open>rowIndex\<close> every column other than \<open>colKey\<close> has the value it had; the number of rows is
  the same when \<open>rowIndex\<close> is in range; and in the active sheet the cell at \<open>rowIndex\<close>,
  \<open>colKey\<close> holds the new text.
\<close>

theorem handleCellEdit_frame:
  "length (handleCellEdit a i k v sheets) = length sheets
   \<and> (\<forall>n < length sheets.
        (a \<noteq> Some (sheet_id (sheets ! n)) \<longrightarrow> handleCellEdit a i k v sheets ! n = sheets ! n)
      \<and> sheet_id (handleCellEdit a i k v sheets ! n) = sheet_id (sheets ! n)
      \<and> name (handleCellEdit a i k v sheets ! n) = name (sheets ! n)
      \<and> columns (handleCellEdit a i k v sheets ! n) = columns (sheets ! n)
      \<and> sheet_type (handleCellEdit a i k v sheets ! n) = sheet_type (sheets ! n)
      \<and> (\<forall>j. j \<noteq> int i \<longrightarrow>
            js_get (data (handleCellEdit a i k v sheets ! n)) j = js_get (data (sheets ! n)) j)
      \<and> (\<forall>c. c \<noteq> k \<longrightarrow>
            cellAt (data (handleCellEdit a i k v sheets ! n)) (int i) c
              = cellAt (data (sheets ! n)) (int i) c)
      \<and> (i < length (data (sheets ! n)) \<longrightarrow>
            length (data (handleCellEdit a i k v sheets ! n)) = length (data (sheets ! n)))
      \<and> (a = Some (sheet_id (sheets ! n)) \<and> sheet_id (sheets ! n) \<noteq> [] \<longrightarrow>
            cellAt (data (handleCellEdit a i k v sheets ! n)) (int i) k = Some (Str v)))"
  using editSheet_frame [of i k v]
  by (auto simp: handleCellEdit_def split: option.splits)

theorem handleCellEdit_frame_witness:
  "length (handleCellEdit (Some ''s1'') 1 ''B'' ''x'' [sheet_abc, sheet_nulls]) = 2
   \<and> handleCellEdit (Some ''s1'') 1 ''B'' ''x'' [sheet_abc, sheet_nulls] ! 1 = sheet_nulls
   \<and> columns (handleCellEdit (Some ''s1'') 1 ''B'' ''x'' [sheet_abc, sheet_nulls] ! 0)
       = [''A'', ''B'', ''C'']
   \<and> js_get (data (handleCellEdit (Some ''s1'') 1 ''B'' ''x'' [sheet_abc, sheet_nulls] ! 0)) 0
       = js_get (data sheet_abc) 0
   \<and> cellAt (data (handleCellEdit (Some ''s1'') 1 ''B'' ''x'' [sheet_abc, sheet_nulls] ! 0)) 1 ''A''
       = Some (Str ''4'')
   \<and> cellAt (data (handleCellEdit (Some ''s1'') 1 ''B'' ''x'' [sheet_abc, sheet_nulls] ! 0)) 1 ''B''
       = Some (Str ''x'')
   \<and> length (data (handleCellEdit (Some ''s1'') 1 ''B'' ''x'' [sheet_abc, sheet_nulls] ! 0)) = 2"
  using handleCellEdit_frame [of "Some ''s1''" 1 "''B''" "''x''" "[sheet_abc, sheet_nulls]"]
  by (simp add: handleCellEdit_def editSheet_def sheet_abc_def sheet_nulls_def js_get_def
      js_index_def js_set_def cellAt_def Let_def)

end
